theory Spec2Isabelle
  imports Complex_Main "HOL-Library.Sublist"
begin

section \<open>Python strings and integers used by the session manager\<close>

text \<open>
  A Python \<open>str\<close> is a \<open>string\<close> (a list of characters with codes below 256).
  The functions of this section are the library operations the source calls:
  \<open>str(n)\<close>, the format \<open>{n:03d}\<close>, \<open>int(s)\<close>, \<open>s.split(c)\<close>,
  \<open>s.lower()\<close>, \<open>s.replace(old, new)\<close> and \<open>Path.suffix\<close>.
\<close>

definition digit_char :: "nat \<Rightarrow> char" where
  "digit_char d = char_of (48 + d)"

fun dec_digits :: "nat \<Rightarrow> string" where
  "dec_digits n =
     (if n < 10 then [digit_char n] else dec_digits (n div 10) @ [digit_char (n mod 10)])"

declare dec_digits.simps [simp del]

text \<open>\<open>str(n)\<close> for an integer.\<close>

definition str_int :: "int \<Rightarrow> string" where
  "str_int n = (if n < 0 then CHR ''-'' # dec_digits (nat (- n)) else dec_digits (nat n))"

text \<open>
  \<open>f"{n:03d}"\<close>: decimal, padded with zeros to three characters; the sign of a
  negative number counts as one of the three (\<open>-4\<close> gives \<open>-04\<close>).
\<close>

definition format_03d :: "int \<Rightarrow> string" where
  "format_03d n =
     (let ds = dec_digits (nat \<bar>n\<bar>) in
      if n < 0 then CHR ''-'' # replicate (2 - length ds) CHR ''0'' @ ds
      else replicate (3 - length ds) CHR ''0'' @ ds)"

text \<open>
  The characters \<open>int()\<close> strips from both ends: the white space of C (tab, line
  feed, vertical tab, form feed, carriage return, space) and the two white-space code
  points between 128 and 255, which \<open>int()\<close> turns into spaces first. The separators
  with codes 28 to 31 are not stripped.
\<close>

definition is_space :: "char \<Rightarrow> bool" where
  "is_space c = ((of_char c :: nat) \<in> {9, 10, 11, 12, 13, 32, 133, 160})"

definition strip :: "string \<Rightarrow> string" where
  "strip s = rev (dropWhile is_space (rev (dropWhile is_space s)))"

definition is_digit :: "char \<Rightarrow> bool" where
  "is_digit c = (48 \<le> (of_char c :: nat) \<and> (of_char c :: nat) \<le> 57)"

definition digit_val :: "char \<Rightarrow> nat" where
  "digit_val c = of_char c - 48"

definition dec_val :: "string \<Rightarrow> nat" where
  "dec_val ds = foldl (\<lambda>a c. 10 * a + digit_val c) 0 ds"

text \<open>
  \<open>int(s)\<close> in base ten: surrounding white space is dropped, one sign is allowed, at
  least one digit must follow and nothing else; \<open>None\<close> is the \<open>ValueError\<close>.
  (Underscores between digits, which \<open>int\<close> also accepts, cannot reach it from
  \<open>load_session\<close>: the argument is a piece of a string split at underscores.)
\<close>

definition py_int :: "string \<Rightarrow> int option" where
  "py_int s =
     (let t = strip s;
          neg = (t \<noteq> [] \<and> hd t = CHR ''-'');
          ds = (if t \<noteq> [] \<and> (hd t = CHR ''-'' \<or> hd t = CHR ''+'') then tl t else t)
      in if ds \<noteq> [] \<and> list_all is_digit ds
         then Some (if neg then - int (dec_val ds) else int (dec_val ds))
         else None)"

text \<open>\<open>s.split(sep)\<close> for a one-character separator: never an empty list.\<close>

fun split_chr :: "char \<Rightarrow> string \<Rightarrow> string list" where
  "split_chr sep [] = [[]]"
| "split_chr sep (c # cs) =
     (if c = sep then [] # split_chr sep cs
      else (case split_chr sep cs of
              w # ws \<Rightarrow> (c # w) # ws
            | [] \<Rightarrow> [[c]]))"

text \<open>\<open>int(aid.split('_')[-1])\<close>, the numeric suffix of an artifact identifier.\<close>

definition numeric_suffix :: "string \<Rightarrow> int option" where
  "numeric_suffix aid = py_int (last (split_chr CHR ''_'' aid))"

text \<open>\<open>max(xs, default=d)\<close> on a list of integers.\<close>

definition py_max :: "int list \<Rightarrow> int \<Rightarrow> int" where
  "py_max xs d = (case xs of [] \<Rightarrow> d | y # ys \<Rightarrow> fold max ys y)"

section \<open>Values, dictionaries and files\<close>

text \<open>
  The values that \<open>json.load\<close> returns and \<open>json.dump\<close> accepts. The dataclasses
  of the source do not check the types of their fields, so a field of a loaded
  \<open>Interaction\<close> or \<open>Artifact\<close> holds whatever value the document had there.
  Floating-point numbers are left out. An object is a Python \<open>dict\<close> in insertion
  order.
\<close>

datatype json =
    JNull
  | JBool bool
  | JInt int
  | JStr string
  | JArr "json list"
  | JObj "(string \<times> json) list"

text \<open>
  A \<open>pathlib.Path\<close>, held as its string form: \<open>str(Path s)\<close> is the string of
  the path and \<open>Path(str(p)) == p\<close>.
\<close>

datatype path = Path string

fun str_path :: "path \<Rightarrow> string" where
  "str_path (Path s) = s"

text \<open>\<open>d[k] = v\<close> on a dictionary in insertion order: a present key keeps its place.\<close>

fun dict_set :: "('k \<times> 'v) list \<Rightarrow> 'k \<Rightarrow> 'v \<Rightarrow> ('k \<times> 'v) list" where
  "dict_set [] k v = [(k, v)]"
| "dict_set ((k', v') # kvs) k v =
     (if k' = k then (k, v) # kvs else (k', v') # dict_set kvs k v)"

text \<open>The exceptions the standard library raises inside \<open>load_session\<close>.\<close>

datatype exn =
    KeyError string
  | TypeError
  | AttributeError
  | ValueError
  | JSONDecodeError
  | IsADirectoryError

text \<open>
  The two errors the session manager raises: \<open>FileNotFoundError\<close> with its message,
  and \<open>IOError\<close> with the message up to \<open>Error:\<close> and the exception it reports.
\<close>

datatype session_error =
    FileNotFoundError string
  | IOError string exn

text \<open>
  What a path names: a directory, or a text file. The text of a file is kept as the
  value \<open>json.load\<close> reads from it, \<open>None\<close> when the text is not a JSON document;
  \<open>json.dump\<close> of a value writes a text that reads back as that value.
\<close>

datatype node = Directory | File "json option"

type_synonym filesystem = "path \<Rightarrow> node option"

section \<open>The session manager\<close>

record Artifact =
  art_id :: json
  art_type :: json
  art_format :: json
  art_path :: path
  art_query :: json
  art_created_at :: json
  art_metadata :: json

record Interaction =
  int_query :: json
  int_plan :: json
  int_code :: json
  int_result_summary :: json
  int_artifacts :: json
  int_timestamp :: json

record SessionManager =
  interactions :: "Interaction list"
  artifacts :: "(string \<times> Artifact) list"
  artifact_counter :: int

text \<open>\<open>Artifact.to_dict\<close>: the fields in order, the path as its string.\<close>

definition artifact_to_dict :: "Artifact \<Rightarrow> json" where
  "artifact_to_dict a = JObj
     [(''id'', art_id a), (''type'', art_type a), (''format'', art_format a),
      (''path'', JStr (str_path (art_path a))), (''query'', art_query a),
      (''created_at'', art_created_at a), (''metadata'', art_metadata a)]"

text \<open>\<open>Interaction.to_dict\<close>.\<close>

definition interaction_to_dict :: "Interaction \<Rightarrow> json" where
  "interaction_to_dict i = JObj
     [(''query'', int_query i), (''plan'', int_plan i), (''code'', int_code i),
      (''result_summary'', int_result_summary i), (''artifacts'', int_artifacts i),
      (''timestamp'', int_timestamp i)]"

text \<open>\<open>SessionManager.__init__\<close>.\<close>

definition init :: SessionManager where
  "init = \<lparr>interactions = [], artifacts = [], artifact_counter = 0\<rparr>"

text \<open>
  The slice \<open>xs[start:]\<close>: a negative start counts from the end and is clamped at the
  first element, a start beyond the end gives the empty list.
\<close>

definition slice_from :: "int \<Rightarrow> 'a list \<Rightarrow> 'a list" where
  "slice_from start xs =
     (if start < 0 then drop (nat (max (start + int (length xs)) 0)) xs
      else drop (nat start) xs)"

text \<open>
  \<open>add_interaction\<close>, and the \<open>Interaction\<close> it builds. \<open>history_limit\<close> is \<open>settings.HISTORY_LIMIT\<close>, \<open>now\<close> the
  time stamp \<open>datetime.now().isoformat()\<close>; \<open>artifact_ids or []\<close> turns a missing
  list into the empty list.
\<close>

definition new_interaction ::
  "string \<Rightarrow> string \<Rightarrow> string \<Rightarrow> string \<Rightarrow> string \<Rightarrow> string list option \<Rightarrow> Interaction" where
  "new_interaction now query plan code result_summary artifact_ids =
     \<lparr>int_query = JStr query, int_plan = JStr plan, int_code = JStr code,
      int_result_summary = JStr result_summary,
      int_artifacts = JArr (map JStr (case artifact_ids of None \<Rightarrow> [] | Some ids \<Rightarrow> ids)),
      int_timestamp = JStr now\<rparr>"

definition add_interaction ::
  "int \<Rightarrow> string \<Rightarrow> SessionManager \<Rightarrow> string \<Rightarrow> string \<Rightarrow> string \<Rightarrow> string \<Rightarrow>
   string list option \<Rightarrow> SessionManager" where
  "add_interaction history_limit now sm query plan code result_summary artifact_ids =
     (let interaction = new_interaction now query plan code result_summary artifact_ids;
          appended = interactions sm @ [interaction]
      in if int (length appended) > history_limit
         then sm\<lparr>interactions := slice_from (- history_limit) appended\<rparr>
         else sm\<lparr>interactions := appended\<rparr>)"

text \<open>\<open>create_artifact\<close>: the new artifact and the registry after the call.\<close>

definition create_artifact ::
  "string \<Rightarrow> SessionManager \<Rightarrow> string \<Rightarrow> string \<Rightarrow> path \<Rightarrow> string \<Rightarrow> Artifact \<times> SessionManager" where
  "create_artifact now sm artifact_type file_format p query =
     (let counter = artifact_counter sm + 1;
          artifact_id = artifact_type @ ''_'' @ format_03d counter;
          artifact =
            \<lparr>art_id = JStr artifact_id, art_type = JStr artifact_type,
             art_format = JStr file_format, art_path = p, art_query = JStr query,
             art_created_at = JStr now, art_metadata = JObj []\<rparr>
      in (artifact,
          sm\<lparr>artifact_counter := counter,
             artifacts := dict_set (artifacts sm) artifact_id artifact\<rparr>))"

text \<open>
  \<open>save_session\<close>: the outcome and the file system after the call. Opening a
  directory for writing fails; the manager itself is not changed.
\<close>

definition session_data_of :: "string \<Rightarrow> SessionManager \<Rightarrow> json" where
  "session_data_of now sm = JObj
     [(''interactions'', JArr (map interaction_to_dict (interactions sm))),
      (''artifacts'', JObj (map (\<lambda>(k, v). (k, artifact_to_dict v)) (artifacts sm))),
      (''saved_at'', JStr now)]"

definition save_session ::
  "string \<Rightarrow> filesystem \<Rightarrow> SessionManager \<Rightarrow> path \<Rightarrow> (session_error + unit) \<times> filesystem" where
  "save_session now fs sm filepath =
     (case fs filepath of
        Some Directory \<Rightarrow>
          (Inl (IOError (''Failed to save session to '' @ str_path filepath @ ''. '')
                  IsADirectoryError), fs)
      | _ \<Rightarrow> (Inr (), fs(filepath \<mapsto> File (Some (session_data_of now sm)))))"

text \<open>\<open>d.get(key, default)\<close>: only a dictionary has the method.\<close>

fun dict_get :: "json \<Rightarrow> string \<Rightarrow> json \<Rightarrow> exn + json" where
  "dict_get (JObj kvs) k d = Inr (case map_of kvs k of None \<Rightarrow> d | Some v \<Rightarrow> v)"
| "dict_get _ k d = Inl AttributeError"

text \<open>
  The elements a \<open>for\<close> loop or a comprehension draws from a value: the items of a
  list, the keys of a dictionary, the characters of a string; other values are not
  iterable.
\<close>

fun iterate :: "json \<Rightarrow> exn + json list" where
  "iterate (JArr xs) = Inr xs"
| "iterate (JObj kvs) = Inr (map (JStr \<circ> fst) kvs)"
| "iterate (JStr s) = Inr (map (\<lambda>c. JStr [c]) s)"
| "iterate _ = Inl TypeError"

text \<open>\<open>d.items()\<close>.\<close>

fun dict_items :: "json \<Rightarrow> exn + (string \<times> json) list" where
  "dict_items (JObj kvs) = Inr kvs"
| "dict_items _ = Inl AttributeError"

text \<open>
  \<open>Interaction(**i)\<close>: \<open>i\<close> must be a dictionary whose keys are field names, with
  the four fields that have no default among them. The defaults are the empty list
  and the current time stamp.
\<close>

definition Interaction_init :: "string \<Rightarrow> json \<Rightarrow> exn + Interaction" where
  "Interaction_init now i =
     (case i of
        JObj kvs \<Rightarrow>
          if list_all (\<lambda>k. k \<in> set [''query'', ''plan'', ''code'', ''result_summary'',
                                       ''artifacts'', ''timestamp'']) (map fst kvs)
             \<and> list_all (\<lambda>k. k \<in> set (map fst kvs))
                   [''query'', ''plan'', ''code'', ''result_summary'']
          then Inr \<lparr>int_query = the (map_of kvs ''query''),
                    int_plan = the (map_of kvs ''plan''),
                    int_code = the (map_of kvs ''code''),
                    int_result_summary = the (map_of kvs ''result_summary''),
                    int_artifacts = (case map_of kvs ''artifacts'' of None \<Rightarrow> JArr [] | Some v \<Rightarrow> v),
                    int_timestamp = (case map_of kvs ''timestamp'' of None \<Rightarrow> JStr now | Some v \<Rightarrow> v)\<rparr>
          else Inl TypeError
      | _ \<Rightarrow> Inl TypeError)"

text \<open>The list comprehension \<open>[Interaction(**i) for i in items]\<close>.\<close>

fun load_interaction_list :: "string \<Rightarrow> json list \<Rightarrow> exn + Interaction list" where
  "load_interaction_list now [] = Inr []"
| "load_interaction_list now (i # rest) =
     (case Interaction_init now i of
        Inl e \<Rightarrow> Inl e
      | Inr x \<Rightarrow> (case load_interaction_list now rest of
                    Inl e \<Rightarrow> Inl e
                  | Inr xs \<Rightarrow> Inr (x # xs)))"

text \<open>The right-hand side of line 112, from the loaded document.\<close>

definition load_interactions :: "string \<Rightarrow> json \<Rightarrow> exn + Interaction list" where
  "load_interactions now session_data =
     (case dict_get session_data ''interactions'' (JArr []) of
        Inl e \<Rightarrow> Inl e
      | Inr v \<Rightarrow> (case iterate v of
                    Inl e \<Rightarrow> Inl e
                  | Inr items \<Rightarrow> load_interaction_list now items))"

text \<open>
  The body of the loop over the artifacts: \<open>artifact_data['path']\<close> must exist and
  be a string for \<open>Path\<close>; then \<open>Artifact(**artifact_data)\<close> wants every field but
  \<open>metadata\<close> and no other key.
\<close>

definition Artifact_load :: "json \<Rightarrow> exn + Artifact" where
  "Artifact_load artifact_data =
     (case artifact_data of
        JObj kvs \<Rightarrow>
          (case map_of kvs ''path'' of
             None \<Rightarrow> Inl (KeyError ''path'')
           | Some (JStr s) \<Rightarrow>
               if list_all (\<lambda>k. k \<in> set [''id'', ''type'', ''format'', ''path'', ''query'',
                                            ''created_at'', ''metadata'']) (map fst kvs)
                  \<and> list_all (\<lambda>k. k \<in> set (map fst kvs))
                        [''id'', ''type'', ''format'', ''query'', ''created_at'']
               then Inr \<lparr>art_id = the (map_of kvs ''id''),
                         art_type = the (map_of kvs ''type''),
                         art_format = the (map_of kvs ''format''),
                         art_path = Path s,
                         art_query = the (map_of kvs ''query''),
                         art_created_at = the (map_of kvs ''created_at''),
                         art_metadata = (case map_of kvs ''metadata'' of None \<Rightarrow> JObj [] | Some v \<Rightarrow> v)\<rparr>
               else Inl TypeError
           | Some _ \<Rightarrow> Inl TypeError)
      | _ \<Rightarrow> Inl TypeError)"

text \<open>
  The loop of lines 115 to 118: each artifact is stored as soon as it is built, so an
  exception leaves the ones stored before it.
\<close>

fun load_artifacts ::
  "(string \<times> json) list \<Rightarrow> (string \<times> Artifact) list \<Rightarrow> (exn + unit) \<times> (string \<times> Artifact) list" where
  "load_artifacts [] acc = (Inr (), acc)"
| "load_artifacts ((artifact_id, artifact_data) # rest) acc =
     (case Artifact_load artifact_data of
        Inl e \<Rightarrow> (Inl e, acc)
      | Inr a \<Rightarrow> load_artifacts rest (dict_set acc artifact_id a))"

text \<open>The list comprehension of line 122.\<close>

fun suffixes :: "string list \<Rightarrow> exn + int list" where
  "suffixes [] = Inr []"
| "suffixes (aid # rest) =
     (case numeric_suffix aid of
        None \<Rightarrow> Inl ValueError
      | Some n \<Rightarrow> (case suffixes rest of Inl e \<Rightarrow> Inl e | Inr ns \<Rightarrow> Inr (n # ns)))"

definition load_error :: "path \<Rightarrow> exn \<Rightarrow> session_error" where
  "load_error filepath e =
     IOError (''Failed to load or parse session file '' @ str_path filepath @ ''. '') e"

text \<open>
  \<open>load_session\<close>: the outcome and the manager after the call. The assignments are
  made in the order of the source, so the manager returned with an error is the one
  the exception leaves behind.
\<close>

definition load_session ::
  "string \<Rightarrow> filesystem \<Rightarrow> SessionManager \<Rightarrow> path \<Rightarrow> (session_error + unit) \<times> SessionManager" where
  "load_session now fs sm filepath =
     (case fs filepath of
        None \<Rightarrow> (Inl (FileNotFoundError (''Session file not found: '' @ str_path filepath)), sm)
      | Some Directory \<Rightarrow> (Inl (load_error filepath IsADirectoryError), sm)
      | Some (File None) \<Rightarrow> (Inl (load_error filepath JSONDecodeError), sm)
      | Some (File (Some session_data)) \<Rightarrow>
          (case load_interactions now session_data of
             Inl e \<Rightarrow> (Inl (load_error filepath e), sm)
           | Inr loaded \<Rightarrow>
               (let sm1 = sm\<lparr>interactions := loaded\<rparr>;
                    sm2 = sm1\<lparr>artifacts := []\<rparr>
                in case dict_get session_data ''artifacts'' (JObj []) of
                     Inl e \<Rightarrow> (Inl (load_error filepath e), sm2)
                   | Inr v \<Rightarrow>
                       (case dict_items v of
                          Inl e \<Rightarrow> (Inl (load_error filepath e), sm2)
                        | Inr kvs \<Rightarrow>
                            (case load_artifacts kvs [] of
                               (Inl e, arts) \<Rightarrow> (Inl (load_error filepath e), sm2\<lparr>artifacts := arts\<rparr>)
                             | (Inr u, arts) \<Rightarrow>
                                 (let sm3 = sm2\<lparr>artifacts := arts\<rparr>
                                  in if arts \<noteq> []
                                     then (case suffixes (map fst arts) of
                                             Inl e \<Rightarrow> (Inl (load_error filepath e), sm3)
                                           | Inr ns \<Rightarrow> (Inr (), sm3\<lparr>artifact_counter := py_max ns 0\<rparr>))
                                     else (Inr (), sm3)))))))"

text \<open>
  A caller's requests to one manager, as the interactive loop of \<open>main.py\<close> issues
  them: a \<open>create_artifact\<close> call, a \<open>save_session\<close> and a \<open>load_session\<close>. The
  loop catches an exception and goes on with the manager and the files as the call
  left them. The artifacts returned by the create calls are collected.
\<close>

datatype request =
    Create string string string path string
  | Save string path
  | Load string path

fun run_requests ::
  "filesystem \<Rightarrow> SessionManager \<Rightarrow> request list \<Rightarrow> Artifact list \<times> filesystem \<times> SessionManager" where
  "run_requests fs sm [] = ([], fs, sm)"
| "run_requests fs sm (Create now artifact_type file_format p query # rest) =
     (case create_artifact now sm artifact_type file_format p query of
        (a, sm') \<Rightarrow> (case run_requests fs sm' rest of
                       (created, fs', sm'') \<Rightarrow> (a # created, fs', sm'')))"
| "run_requests fs sm (Save now filepath # rest) =
     run_requests (snd (save_session now fs sm filepath)) sm rest"
| "run_requests fs sm (Load now filepath # rest) =
     run_requests fs (snd (load_session now fs sm filepath)) rest"

text \<open>
  The runs in which every load is a round trip: it reads the file of the save before
  it, with no create call in between. The first argument is the path of that save,
  if there is one.
\<close>

fun round_trips_from :: "path option \<Rightarrow> request list \<Rightarrow> bool" where
  "round_trips_from saved [] = True"
| "round_trips_from saved (Create now artifact_type file_format p query # rest) =
     round_trips_from None rest"
| "round_trips_from saved (Save now filepath # rest) = round_trips_from (Some filepath) rest"
| "round_trips_from saved (Load now filepath # rest) =
     (saved = Some filepath \<and> round_trips_from saved rest)"

definition round_trips :: "request list \<Rightarrow> bool" where
  "round_trips reqs = round_trips_from None reqs"

text \<open>The types the create calls of a run ask for, in order.\<close>

fun requested_types :: "request list \<Rightarrow> string list" where
  "requested_types [] = []"
| "requested_types (Create now artifact_type file_format p query # rest) =
     artifact_type # requested_types rest"
| "requested_types (Save now filepath # rest) = requested_types rest"
| "requested_types (Load now filepath # rest) = requested_types rest"

text \<open>
  A run of create calls only: each call is the tuple of its time stamp, type, format,
  path and query.
\<close>

definition creates :: "(string \<times> string \<times> string \<times> path \<times> string) list \<Rightarrow> request list" where
  "creates calls = map (\<lambda>(now, ty, fmt, p, q). Create now ty fmt p q) calls"

definition call_type :: "string \<times> string \<times> string \<times> path \<times> string \<Rightarrow> string" where
  "call_type c = fst (snd c)"

text \<open>The numeric suffix of an artifact's identifier, read as \<open>load_session\<close> reads it.\<close>

definition id_suffix :: "Artifact \<Rightarrow> int option" where
  "id_suffix a = (case art_id a of JStr s \<Rightarrow> numeric_suffix s | _ \<Rightarrow> None)"

section \<open>The code executor\<close>

record ExecutionResult =
  success :: bool
  stdout :: string
  stderr :: string
  output_files :: "(string \<times> path) list"
  error :: "string option"

definition squote :: char where
  "squote = CHR 0x27"

definition dquote :: char where
  "dquote = CHR 0x22"

text \<open>
  \<open>s.replace(old, new)\<close>: every occurrence of \<open>old\<close>, found from left to right
  without overlap, is replaced; an empty \<open>old\<close> matches before every character and
  at the end.
\<close>

function str_replace :: "string \<Rightarrow> string \<Rightarrow> string \<Rightarrow> string" where
  "str_replace old new s =
     (if old = [] then new @ concat (map (\<lambda>c. c # new) s)
      else if s = [] then []
      else if prefix old s then new @ str_replace old new (drop (length old) s)
      else hd s # str_replace old new (tl s))"
  by pat_completeness auto
termination
  by (relation "measure (\<lambda>(old, new, s). length s)") auto

declare str_replace.simps [simp del]

text \<open>\<open>_prepare_code_for_local_execution\<close>.\<close>

definition prepare_code_for_local_execution :: "string \<Rightarrow> string \<Rightarrow> string \<Rightarrow> string" where
  "prepare_code_for_local_execution code data_dir output_dir =
     (let code1 = str_replace (squote # ''/data/'') (''r'' @ [squote] @ data_dir @ ''/'') code;
          code2 = str_replace (dquote # ''/data/'') (''r'' @ [dquote] @ data_dir @ ''/'') code1;
          code3 = str_replace (squote # ''/output/'') (''r'' @ [squote] @ output_dir @ ''/'') code2;
          code4 = str_replace (dquote # ''/output/'') (''r'' @ [dquote] @ output_dir @ ''/'') code3
      in code4)"

text \<open>
  \<open>Path.suffix\<close> of a file name: the text from the last dot on, unless that dot is
  the first or the last character of the name.
\<close>

definition path_suffix :: "string \<Rightarrow> string" where
  "path_suffix name =
     (let after = rev (takeWhile (\<lambda>c. c \<noteq> CHR ''.'') (rev name))
      in if CHR ''.'' \<in> set name \<and> after \<noteq> [] \<and> length after + 1 < length name
         then CHR ''.'' # after else [])"

text \<open>
  \<open>str.lower\<close>. Only the letters \<open>A\<close> to \<open>Z\<close> are mapped: no other character
  becomes a letter of the four extensions of the table.
\<close>

definition lower_char :: "char \<Rightarrow> char" where
  "lower_char c =
     (if 65 \<le> (of_char c :: nat) \<and> (of_char c :: nat) \<le> 90 then char_of ((of_char c :: nat) + 32) else c)"

definition lower :: "string \<Rightarrow> string" where
  "lower s = map lower_char s"

definition type_map :: "(string \<times> string) list" where
  "type_map = [(''.png'', ''chart''), (''.jpg'', ''chart''), (''.csv'', ''table''), (''.xlsx'', ''table'')]"

text \<open>\<open>type_map.get(file_path.suffix.lower(), 'file')\<close>, from an extension and from a name.\<close>

definition classify_suffix :: "string \<Rightarrow> string" where
  "classify_suffix ext = (case map_of type_map (lower ext) of None \<Rightarrow> ''file'' | Some t \<Rightarrow> t)"

definition file_type_of :: "string \<Rightarrow> string" where
  "file_type_of name = classify_suffix (path_suffix name)"

text \<open>An entry of the sandbox's output directory, as \<open>iterdir\<close> yields it.\<close>

record dir_entry =
  entry_name :: string
  entry_is_file :: bool
  entry_content :: string

text \<open>
  What a child process writes to one of its output streams: bytes that decode as
  UTF-8 to a text, or bytes that do not (with the text of the \<open>UnicodeDecodeError\<close>).
\<close>

datatype stream =
    Text string
  | Undecodable string

text \<open>
  What the child process does once started: it cannot be launched (the exception's
  text), or it runs for some seconds and ends with an exit status, its two output
  streams and the entries it leaves in the output directory.
\<close>

datatype child =
    LaunchError string
  | Runs real int stream stream "dir_entry list"

text \<open>
  The machine the executor runs on: the fresh temporary directory, the interpreter's
  path, the child a command starts (from its arguments, its environment if one is
  given, and the text of \<open>execute.py\<close>), the seconds the container spends installing
  the requirements before the script starts, and the exceptions of \<open>shutil.copy\<close>
  and \<open>shutil.move\<close>.
\<close>

record host =
  temp_dir :: string
  sys_executable :: string
  spawn :: "string list \<Rightarrow> (string \<times> string) list option \<Rightarrow> string \<Rightarrow> child"
  pip_install_seconds :: real
  copy_error :: "path \<Rightarrow> string option"
  move_error :: "string \<Rightarrow> string option"

text \<open>
  \<open>subprocess.run(..., text=True, encoding='utf-8', timeout=t)\<close> on a child that
  starts \<open>before\<close> seconds into the command: \<open>TimeoutExpired\<close> when the command is
  not over after \<open>t\<close> seconds; otherwise the two streams are decoded, the standard
  output first, and bytes that do not decode raise \<open>UnicodeDecodeError\<close>.
\<close>

datatype run_outcome =
    Completed int string string "dir_entry list"
  | TimeoutExpired
  | Raised string

definition subprocess_run :: "child \<Rightarrow> real \<Rightarrow> real \<Rightarrow> run_outcome" where
  "subprocess_run c before t =
     (case c of
        LaunchError e \<Rightarrow> Raised e
      | Runs seconds returncode out err written \<Rightarrow>
          if before + seconds > t then TimeoutExpired
          else (case out of
                  Undecodable e \<Rightarrow> Raised e
                | Text out_text \<Rightarrow>
                    (case err of
                       Undecodable e \<Rightarrow> Raised e
                     | Text err_text \<Rightarrow> Completed returncode out_text err_text written)))"

text \<open>
  \<open>_collect_output_files\<close>: the loop over the entries, with the dictionary \<open>output_files\<close>
  built so far. An exception of \<open>shutil.move\<close> ends the loop.
\<close>

fun collect_output_files ::
  "host \<Rightarrow> path \<Rightarrow> dir_entry list \<Rightarrow> (string \<times> path) list \<Rightarrow> string + (string \<times> path) list" where
  "collect_output_files h dest_dir [] collected = Inr collected"
| "collect_output_files h dest_dir (e # rest) collected =
     (if entry_is_file e
      then (let file_type = file_type_of (entry_name e);
                dest_path = Path (str_path dest_dir @ ''/'' @ entry_name e)
            in case move_error h (entry_name e) of
                 Some msg \<Rightarrow> Inl msg
               | None \<Rightarrow> collect_output_files h dest_dir rest (dict_set collected file_type dest_path))
      else collect_output_files h dest_dir rest collected)"

text \<open>The loop \<open>shutil.copy(filepath, data_dir / f"{name}.csv")\<close> over the data files.\<close>

fun copy_data_files :: "host \<Rightarrow> (string \<times> path) list \<Rightarrow> string option" where
  "copy_data_files h [] = None"
| "copy_data_files h ((name, filepath) # rest) =
     (case copy_error h filepath of
        Some msg \<Rightarrow> Some msg
      | None \<Rightarrow> copy_data_files h rest)"

text \<open>The text each backend writes to \<open>execute.py\<close> in the sandbox.\<close>

definition subprocess_script :: "host \<Rightarrow> string \<Rightarrow> string" where
  "subprocess_script h code =
     prepare_code_for_local_execution code (temp_dir h @ ''/data'') (temp_dir h @ ''/output'')"

definition docker_script :: "host \<Rightarrow> string \<Rightarrow> string" where
  "docker_script h code = code"

definition docker_cmd :: "host \<Rightarrow> string \<Rightarrow> string list" where
  "docker_cmd h docker_image =
     [''docker'', ''run'', ''--rm'',
      ''--network'', ''none'',
      ''--memory'', ''512m'',
      ''--cpus'', ''1.0'',
      ''-v'', temp_dir h @ '':/workspace'',
      ''-w'', ''/workspace'',
      docker_image,
      ''sh'', ''-c'', ''pip install -r requirements.txt > /dev/null && python execute.py'']"

definition failed_result :: "string \<Rightarrow> ExecutionResult" where
  "failed_result msg =
     \<lparr>success = False, stdout = [], stderr = [], output_files = [], error = Some msg\<rparr>"

text \<open>
  The call of \<open>subprocess.run\<close> each backend makes. \<open>timeout\<close> is
  \<open>settings.CODE_EXECUTION_TIMEOUT\<close>; the container's wait is thirty seconds longer,
  and its script starts after the requirements are installed.
\<close>

definition run_subprocess_backend :: "int \<Rightarrow> host \<Rightarrow> string \<Rightarrow> run_outcome" where
  "run_subprocess_backend timeout h code =
     subprocess_run
       (spawn h [sys_executable h, temp_dir h @ ''/execute.py'']
          (Some [(''MPLBACKEND'', ''Agg'')]) (subprocess_script h code))
       0 (real_of_int timeout)"

definition run_docker_backend :: "int \<Rightarrow> string \<Rightarrow> host \<Rightarrow> string \<Rightarrow> run_outcome" where
  "run_docker_backend timeout docker_image h code =
     subprocess_run
       (spawn h (docker_cmd h docker_image) None (docker_script h code))
       (pip_install_seconds h) (real_of_int (timeout + 30))"

text \<open>
  \<open>_execute_subprocess\<close>. An exception while the data files are copied is raised
  before the \<open>try\<close> and leaves the function (\<open>Inl\<close>); the two \<open>except\<close> clauses
  cover the call of \<open>subprocess.run\<close> and the collection of the output files.
\<close>

definition execute_subprocess ::
  "int \<Rightarrow> host \<Rightarrow> string \<Rightarrow> (string \<times> path) list \<Rightarrow> path \<Rightarrow> string + ExecutionResult" where
  "execute_subprocess timeout h code data_files session_output_dir =
     (case copy_data_files h data_files of
        Some msg \<Rightarrow> Inl msg
      | None \<Rightarrow>
          (case run_subprocess_backend timeout h code of
             Completed returncode out err written \<Rightarrow>
               (case collect_output_files h session_output_dir written [] of
                  Inl msg \<Rightarrow> Inr (failed_result (''Subprocess execution error: '' @ msg))
                | Inr files \<Rightarrow>
                    Inr \<lparr>success = (returncode = 0), stdout = out, stderr = err,
                         output_files = files, error = None\<rparr>)
           | TimeoutExpired \<Rightarrow>
               Inr (failed_result (''Execution timed out after '' @ str_int timeout @ ''s''))
           | Raised msg \<Rightarrow> Inr (failed_result (''Subprocess execution error: '' @ msg))))"

text \<open>\<open>_execute_docker\<close>.\<close>

definition execute_docker ::
  "int \<Rightarrow> string \<Rightarrow> host \<Rightarrow> string \<Rightarrow> (string \<times> path) list \<Rightarrow> path \<Rightarrow> string + ExecutionResult" where
  "execute_docker timeout docker_image h code data_files session_output_dir =
     (case copy_data_files h data_files of
        Some msg \<Rightarrow> Inl msg
      | None \<Rightarrow>
          (case run_docker_backend timeout docker_image h code of
             Completed returncode out err written \<Rightarrow>
               (case collect_output_files h session_output_dir written [] of
                  Inl msg \<Rightarrow> Inr (failed_result (''Docker execution error: '' @ msg))
                | Inr files \<Rightarrow>
                    Inr \<lparr>success = (returncode = 0), stdout = out, stderr = err,
                         output_files = files, error = None\<rparr>)
           | TimeoutExpired \<Rightarrow>
               Inr (failed_result (''Docker execution timed out after '' @ str_int timeout @ ''s''))
           | Raised msg \<Rightarrow> Inr (failed_result (''Docker execution error: '' @ msg))))"

text \<open>\<open>execute\<close>: \<open>use_docker\<close> is the executor's field of that name.\<close>

definition execute ::
  "bool \<Rightarrow> int \<Rightarrow> string \<Rightarrow> host \<Rightarrow> string \<Rightarrow> (string \<times> path) list \<Rightarrow> path \<Rightarrow> string + ExecutionResult" where
  "execute use_docker timeout docker_image h code data_files session_output_dir =
     (if use_docker then execute_docker timeout docker_image h code data_files session_output_dir
      else execute_subprocess timeout h code data_files session_output_dir)"

text \<open>The call of \<open>subprocess.run\<close> that \<open>execute\<close> reaches, by backend.\<close>

definition backend_run :: "bool \<Rightarrow> int \<Rightarrow> string \<Rightarrow> host \<Rightarrow> string \<Rightarrow> run_outcome" where
  "backend_run use_docker timeout docker_image h code =
     (if use_docker then run_docker_backend timeout docker_image h code
      else run_subprocess_backend timeout h code)"

text \<open>
  The child that call starts, and whether a child that runs for the given seconds is
  still running when the wait of the backend ends.
\<close>

definition backend_child :: "bool \<Rightarrow> string \<Rightarrow> host \<Rightarrow> string \<Rightarrow> child" where
  "backend_child use_docker docker_image h code =
     (if use_docker then spawn h (docker_cmd h docker_image) None (docker_script h code)
      else spawn h [sys_executable h, temp_dir h @ ''/execute.py'']
             (Some [(''MPLBACKEND'', ''Agg'')]) (subprocess_script h code))"

definition wait_exceeded :: "bool \<Rightarrow> int \<Rightarrow> host \<Rightarrow> real \<Rightarrow> bool" where
  "wait_exceeded use_docker timeout h seconds =
     (if use_docker then pip_install_seconds h + seconds > real_of_int (timeout + 30)
      else seconds > real_of_int timeout)"

section \<open>The rewriting of placeholder paths, in one pass\<close>

text \<open>
  The rewriting as one pass over the text, to compare the four replacements of
  \<open>_prepare_code_for_local_execution\<close> with: from left to right, where the text
  begins with the first component of a rule, the second component is written and the
  first is skipped; elsewhere the character is copied. The rules for the placeholders
  are those for a quote character directly followed by \<open>/data/\<close> or \<open>/output/\<close>.
\<close>

function rewrite_pass :: "(string \<times> string) list \<Rightarrow> string \<Rightarrow> string" where
  "rewrite_pass rules s =
     (if s = [] then []
      else (case find (\<lambda>(old, new). old \<noteq> [] \<and> prefix old s) rules of
              Some (old, new) \<Rightarrow> new @ rewrite_pass rules (drop (length old) s)
            | None \<Rightarrow> hd s # rewrite_pass rules (tl s)))"
  by pat_completeness auto
termination
proof (relation "measure (\<lambda>(rules, s). length s)")
  show "wf (measure (\<lambda>(rules, s). length s))" by simp
next
  fix rules :: "(string \<times> string) list" and s :: string and x2 x y
  assume "s \<noteq> []" "find (\<lambda>(old, new). old \<noteq> [] \<and> prefix old s) rules = Some x2" "(x, y) = x2"
  then have "x \<noteq> []" by (auto simp: find_Some_iff)
  with \<open>s \<noteq> []\<close> show "((rules, drop (length x) s), rules, s) \<in> measure (\<lambda>(rules, s). length s)"
    by simp
next
  fix rules :: "(string \<times> string) list" and s :: string
  assume "s \<noteq> []"
  then show "((rules, tl s), rules, s) \<in> measure (\<lambda>(rules, s). length s)" by simp
qed

declare rewrite_pass.simps [simp del]

definition placeholder_rules :: "string \<Rightarrow> string \<Rightarrow> (string \<times> string) list" where
  "placeholder_rules data_dir output_dir =
     [(squote # ''/data/'', ''r'' @ [squote] @ data_dir @ ''/''),
      (dquote # ''/data/'', ''r'' @ [dquote] @ data_dir @ ''/''),
      (squote # ''/output/'', ''r'' @ [squote] @ output_dir @ ''/''),
      (dquote # ''/output/'', ''r'' @ [dquote] @ output_dir @ ''/'')]"

text \<open>
  What holds of a manager reached from a new one by create calls and by saves followed
  by loads: the keys of the artifacts are distinct, every artifact is stored under its
  identifier, every identifier has a numeric suffix not above the counter, and the
  counter is the suffix of one of them unless there is none.
\<close>

definition registry_inv :: "SessionManager \<Rightarrow> bool" where
  "registry_inv sm =
     (distinct (map fst (artifacts sm))
      \<and> list_all (\<lambda>(k, a). art_id a = JStr k \<and> (\<exists>n. numeric_suffix k = Some n \<and> n \<le> artifact_counter sm))
           (artifacts sm)
      \<and> (artifacts sm \<noteq> [] \<longrightarrow> Some (artifact_counter sm) \<in> numeric_suffix ` fst ` set (artifacts sm)))"

text \<open>
  A file that a load reads back as the manager is now: the file a save of the manager
  has written, or a directory, on which the save and the load both fail.
\<close>

definition synced :: "filesystem \<Rightarrow> SessionManager \<Rightarrow> path \<Rightarrow> bool" where
  "synced fs sm filepath =
     (fs filepath = Some Directory
      \<or> (\<exists>now. fs filepath = Some (File (Some (session_data_of now sm)))))"

section \<open>Example runs\<close>

text \<open>
  A chart, a save, a load of the saved file and a chart again; and the same with a
  further chart between the save and the load.
\<close>

definition round_trip_run :: "request list" where
  "round_trip_run =
     [Create ''2024-01-01T10:00:00'' ''chart'' ''png'' (Path ''/out/a.png'') ''plot sales'',
      Save ''2024-01-01T10:01:00'' (Path ''/out/s.json''),
      Load ''2024-01-01T10:02:00'' (Path ''/out/s.json''),
      Create ''2024-01-01T10:03:00'' ''chart'' ''png'' (Path ''/out/b.png'') ''plot costs'']"

definition stale_run :: "request list" where
  "stale_run =
     [Create ''2024-01-01T10:00:00'' ''chart'' ''png'' (Path ''/out/a.png'') ''plot sales'',
      Save ''2024-01-01T10:01:00'' (Path ''/out/s.json''),
      Create ''2024-01-01T10:02:00'' ''chart'' ''png'' (Path ''/out/b.png'') ''plot costs'',
      Load ''2024-01-01T10:03:00'' (Path ''/out/s.json''),
      Create ''2024-01-01T10:04:00'' ''chart'' ''png'' (Path ''/out/c.png'') ''plot margin'']"

text \<open>
  The same two runs with a table as the last artifact.
\<close>

definition mixed_stale_run :: "request list" where
  "mixed_stale_run =
     [Create ''2024-01-01T10:00:00'' ''chart'' ''png'' (Path ''/out/a.png'') ''plot sales'',
      Save ''2024-01-01T10:01:00'' (Path ''/out/s.json''),
      Create ''2024-01-01T10:02:00'' ''chart'' ''png'' (Path ''/out/b.png'') ''plot costs'',
      Load ''2024-01-01T10:03:00'' (Path ''/out/s.json''),
      Create ''2024-01-01T10:04:00'' ''table'' ''csv'' (Path ''/out/c.csv'') ''list margin'']"

definition mixed_round_trip_run :: "request list" where
  "mixed_round_trip_run =
     [Create ''2024-01-01T10:00:00'' ''chart'' ''png'' (Path ''/out/a.png'') ''plot sales'',
      Save ''2024-01-01T10:01:00'' (Path ''/out/s.json''),
      Load ''2024-01-01T10:02:00'' (Path ''/out/s.json''),
      Create ''2024-01-01T10:03:00'' ''table'' ''csv'' (Path ''/out/c.csv'') ''list margin'']"

section \<open>Example sessions\<close>

text \<open>
  A manager that has created one chart and logged one interaction, a manager that has
  created one chart only, and file systems holding, at \<open>/out/s.json\<close>, a document
  without artifacts and a document whose only artifact entry has no fields.
\<close>

definition chart_session :: SessionManager where
  "chart_session =
     snd (create_artifact ''2024-01-01T10:00:00'' init ''chart'' ''png'' (Path ''/out/chart.png'')
            ''plot sales'')"

definition example_session :: SessionManager where
  "example_session =
     add_interaction 5 ''2024-01-01T10:00:01'' chart_session
       ''plot sales'' ''1. plot'' ''plt.plot()'' ''ok'' (Some [''chart_001''])"

definition fs_with :: "json option \<Rightarrow> filesystem" where
  "fs_with doc = (\<lambda>p. if p = Path ''/out/s.json'' then Some (File doc) else None)"

definition empty_document :: json where
  "empty_document = JObj [(''interactions'', JArr []), (''artifacts'', JObj [])]"

definition broken_document :: json where
  "broken_document = JObj [(''interactions'', JArr []), (''artifacts'', JObj [(''chart_001'', JObj [])])]"

section \<open>Example scripts\<close>

text \<open>
  A script that names the data root inside a shell command, after a space, and a
  script that names it at the start of a string literal.
\<close>

definition shell_script :: string where
  "shell_script = ''os.system('' @ [dquote] @ ''cat /data/sales.csv'' @ [dquote] @ '')''"

definition read_script :: string where
  "read_script = ''pd.read_csv('' @ [squote] @ ''/data/sales.csv'' @ [squote] @ '')''"

section \<open>Example machines\<close>

text \<open>
  Machines for the concrete runs below: one whose child ends after the given seconds
  with exit status zero, one whose child ends after a second with the given exit
  status and error stream, one whose child ends after a second with exit status zero
  and prints a byte that is not UTF-8, and one whose child leaves \<open>table.csv\<close>
  behind while \<open>shutil.move\<close> is refused.
\<close>

definition slow_host :: "real \<Rightarrow> host" where
  "slow_host seconds =
     \<lparr>temp_dir = ''/tmp/tmpab12'', sys_executable = ''/usr/bin/python3'',
      spawn = (\<lambda>argv env script. Runs seconds 0 (Text ''done'') (Text []) []),
      pip_install_seconds = 5,
      copy_error = (\<lambda>p. None), move_error = (\<lambda>n. None)\<rparr>"

definition plain_host :: "int \<Rightarrow> string \<Rightarrow> host" where
  "plain_host returncode err =
     \<lparr>temp_dir = ''/tmp/tmpab12'', sys_executable = ''/usr/bin/python3'',
      spawn = (\<lambda>argv env script. Runs 1 returncode (Text []) (Text err) []),
      pip_install_seconds = 5,
      copy_error = (\<lambda>p. None), move_error = (\<lambda>n. None)\<rparr>"

definition garbled_host :: host where
  "garbled_host =
     \<lparr>temp_dir = ''/tmp/tmpab12'', sys_executable = ''/usr/bin/python3'',
      spawn = (\<lambda>argv env script. Runs 1 0 (Undecodable ''invalid start byte'') (Text []) []),
      pip_install_seconds = 5,
      copy_error = (\<lambda>p. None), move_error = (\<lambda>n. None)\<rparr>"

definition blocked_host :: host where
  "blocked_host =
     \<lparr>temp_dir = ''/tmp/tmpab12'', sys_executable = ''/usr/bin/python3'',
      spawn = (\<lambda>argv env script. Runs 1 0 (Text ''5 rows'') (Text [])
                 [\<lparr>entry_name = ''table.csv'', entry_is_file = True, entry_content = ''a,b''\<rparr>]),
      pip_install_seconds = 5,
      copy_error = (\<lambda>p. None), move_error = (\<lambda>n. Some ''Permission denied'')\<rparr>"

section \<open>Identifiers: formatting and reading back the counter\<close>

lemma is_digit_digit_char: "d < 10 \<Longrightarrow> is_digit (digit_char d)"
  by (simp add: is_digit_def digit_char_def)

lemma digit_val_digit_char: "d < 10 \<Longrightarrow> digit_val (digit_char d) = d"
  by (simp add: digit_val_def digit_char_def)

lemma dec_digits_all_digits: "list_all is_digit (dec_digits n)"
  by (induction n rule: dec_digits.induct)
     (subst dec_digits.simps, simp add: is_digit_digit_char)

lemma dec_digits_nonempty: "dec_digits n \<noteq> []"
  by (subst dec_digits.simps) simp

lemma foldl_dec_digits:
  "foldl (\<lambda>a c. 10 * a + digit_val c) 0 (dec_digits n) = n"
proof (induction n rule: dec_digits.induct)
  case (1 n)
  show ?case
  proof (cases "n < 10")
    case True
    then show ?thesis by (subst dec_digits.simps) (simp add: digit_val_digit_char)
  next
    case False
    with 1 show ?thesis by (subst dec_digits.simps) (simp add: digit_val_digit_char)
  qed
qed

lemma foldl_zeros:
  "foldl (\<lambda>a c. 10 * a + digit_val c) 0 (replicate k CHR ''0'') = 0"
  by (induction k) (simp_all add: digit_val_def)

lemma dec_val_padded: "dec_val (replicate k CHR ''0'' @ dec_digits n) = n"
  by (simp add: dec_val_def foldl_zeros foldl_dec_digits)

lemma all_digits_padded: "list_all is_digit (replicate k CHR ''0'' @ dec_digits n)"
proof -
  have "is_digit CHR ''0''" by (simp add: is_digit_def)
  then show ?thesis using dec_digits_all_digits [of n] by (auto simp: list_all_iff)
qed

lemma is_digit_not_space: "is_digit c \<Longrightarrow> \<not> is_space c"
  by (auto simp: is_digit_def is_space_def)

lemma strip_id:
  assumes "s \<noteq> []" "\<not> is_space (hd s)" "\<not> is_space (last s)"
  shows "strip s = s"
proof -
  from assms have a: "dropWhile is_space s = s" by (cases s) auto
  from assms have "rev s \<noteq> []" "\<not> is_space (hd (rev s))" by (auto simp: hd_rev)
  then have "dropWhile is_space (rev s) = rev s" by (cases "rev s") auto
  with a show ?thesis by (simp add: strip_def)
qed

lemma py_int_format_03d: "py_int (format_03d n) = Some n"
proof -
  define ds where "ds = dec_digits (nat \<bar>n\<bar>)"
  have ne: "ds \<noteq> []" by (simp add: ds_def dec_digits_nonempty)
  have dig: "list_all is_digit ds" by (simp add: ds_def dec_digits_all_digits)
  show ?thesis
  proof (cases "n < 0")
    case True
    define body where "body = replicate (2 - length ds) CHR ''0'' @ ds"
    have f: "format_03d n = CHR ''-'' # body"
      using True by (simp add: format_03d_def ds_def body_def Let_def)
    have bne: "body \<noteq> []" using ne by (simp add: body_def)
    have bd: "list_all is_digit body"
      unfolding body_def ds_def by (rule all_digits_padded)
    have bv: "dec_val body = nat \<bar>n\<bar>"
      unfolding body_def ds_def by (rule dec_val_padded)
    have "is_digit (last body)" using bne bd by (simp add: list_all_iff)
    then have "\<not> is_space (last (CHR ''-'' # body))"
      using bne by (simp add: is_digit_not_space)
    moreover have "\<not> is_space (hd (CHR ''-'' # body))" by (simp add: is_space_def)
    ultimately have "strip (CHR ''-'' # body) = CHR ''-'' # body"
      by (intro strip_id) simp_all
    then show ?thesis using True bne bd bv by (simp add: py_int_def f Let_def)
  next
    case False
    define body where "body = replicate (3 - length ds) CHR ''0'' @ ds"
    have f: "format_03d n = body"
      using False by (simp add: format_03d_def ds_def body_def Let_def)
    have bne: "body \<noteq> []" using ne by (simp add: body_def)
    have bd: "list_all is_digit body"
      unfolding body_def ds_def by (rule all_digits_padded)
    have bv: "dec_val body = nat \<bar>n\<bar>"
      unfolding body_def ds_def by (rule dec_val_padded)
    have hd: "is_digit (hd body)" and la: "is_digit (last body)"
      using bne bd by (simp_all add: list_all_iff)
    then have "strip body = body"
      using bne by (intro strip_id) (simp_all add: is_digit_not_space)
    moreover have "hd body \<noteq> CHR ''-''" "hd body \<noteq> CHR ''+''"
      using hd by (auto simp: is_digit_def)
    ultimately show ?thesis using False bne bd bv by (simp add: py_int_def f Let_def)
  qed
qed

lemma split_chr_nonempty: "split_chr sep s \<noteq> []"
  by (induction s) (auto split: list.splits)

lemma split_chr_no_sep: "sep \<notin> set s \<Longrightarrow> split_chr sep s = [s]"
  by (induction s) auto

lemma split_chr_two: "sep \<in> set s \<Longrightarrow> \<exists>w v vs. split_chr sep s = w # v # vs"
proof (induction s)
  case Nil
  then show ?case by simp
next
  case (Cons c cs)
  show ?case
  proof (cases "c = sep")
    case True
    obtain v vs where "split_chr sep cs = v # vs"
      using split_chr_nonempty [of sep cs] by (cases "split_chr sep cs") auto
    with True show ?thesis by simp
  next
    case False
    with Cons.prems have "sep \<in> set cs" by simp
    from Cons.IH [OF this] obtain w v vs where "split_chr sep cs = w # v # vs" by blast
    with False show ?thesis by simp
  qed
qed

lemma last_split_chr: "sep \<notin> set ys \<Longrightarrow> last (split_chr sep (xs @ sep # ys)) = ys"
proof (induction xs)
  case Nil
  then show ?case by (simp add: split_chr_no_sep)
next
  case (Cons x xs)
  show ?case
  proof (cases "x = sep")
    case True
    with Cons show ?thesis by (simp add: split_chr_nonempty)
  next
    case False
    have "sep \<in> set (xs @ sep # ys)" by simp
    from split_chr_two [OF this] obtain w v vs
      where e: "split_chr sep (xs @ sep # ys) = w # v # vs" by blast
    with Cons False show ?thesis by simp
  qed
qed

lemma underscore_not_in_format: "CHR ''_'' \<notin> set (format_03d n)"
proof -
  have "\<And>c. c \<in> set (dec_digits (nat \<bar>n\<bar>)) \<Longrightarrow> is_digit c"
    using dec_digits_all_digits [of "nat \<bar>n\<bar>"] by (simp add: list_all_iff)
  moreover have "\<not> is_digit CHR ''_''" by (simp add: is_digit_def)
  ultimately have "CHR ''_'' \<notin> set (dec_digits (nat \<bar>n\<bar>))"
    by blast
  then show ?thesis by (auto simp: format_03d_def Let_def)
qed

lemma numeric_suffix_id: "numeric_suffix (ty @ ''_'' @ format_03d n) = Some n"
  using last_split_chr [OF underscore_not_in_format, of ty n]
  by (simp add: numeric_suffix_def py_int_format_03d)

section \<open>One counter for all artifact types\<close>

lemma format_examples: "format_03d 1 = ''001''" "format_03d 2 = ''002''"
  by code_simp+

lemma create_artifact_id:
  "art_id (fst (create_artifact now sm ty fmt p q)) = JStr (ty @ ''_'' @ format_03d (artifact_counter sm + 1))"
  by (simp add: create_artifact_def Let_def)

lemma create_artifact_counter:
  "artifact_counter (snd (create_artifact now sm ty fmt p q)) = artifact_counter sm + 1"
  by (simp add: create_artifact_def Let_def)

lemma run_creates_ids:
  "map art_id (fst (run_requests fs sm (creates calls))) =
     map2 (\<lambda>c n. JStr (call_type c @ ''_'' @ format_03d n)) calls
       [artifact_counter sm + 1 .. artifact_counter sm + int (length calls)]"
proof (induction calls arbitrary: sm)
  case Nil
  then show ?case by (simp add: creates_def)
next
  case (Cons c calls)
  obtain now ty fmt p q where c: "c = (now, ty, fmt, p, q)" by (cases c) auto
  obtain a sm' where cr: "create_artifact now sm ty fmt p q = (a, sm')" by (cases "create_artifact now sm ty fmt p q")
  have a: "art_id a = JStr (ty @ ''_'' @ format_03d (artifact_counter sm + 1))"
    using create_artifact_id [of now sm ty fmt p q] cr by simp
  have k: "artifact_counter sm' = artifact_counter sm + 1"
    using create_artifact_counter [of now sm ty fmt p q] cr by simp
  have u: "[artifact_counter sm + 1 .. artifact_counter sm + int (length (c # calls))]
     = (artifact_counter sm + 1) # [artifact_counter sm' + 1 .. artifact_counter sm' + int (length calls)]"
    by (subst upto_rec1) (simp_all add: k add.commute add.left_commute)
  have ih: "map art_id (fst (run_requests fs sm' (creates calls))) =
     map2 (\<lambda>c n. JStr (call_type c @ ''_'' @ format_03d n)) calls
       [artifact_counter sm' + 1 .. artifact_counter sm' + int (length calls)]"
    by (rule Cons.IH)
  have "map art_id (fst (run_requests fs sm (creates (c # calls))))
      = art_id a # map art_id (fst (run_requests fs sm' (creates calls)))"
    using cr by (simp add: creates_def c split: prod.splits)
  then show ?case unfolding u ih a by (simp add: c call_type_def)
qed

lemma run_creates_counter:
  "artifact_counter (snd (snd (run_requests fs sm (creates calls)))) = artifact_counter sm + int (length calls)"
proof (induction calls arbitrary: sm)
  case Nil
  then show ?case by (simp add: creates_def)
next
  case (Cons c calls)
  obtain now ty fmt p q where c: "c = (now, ty, fmt, p, q)" by (cases c) auto
  obtain a sm' where cr: "create_artifact now sm ty fmt p q = (a, sm')" by (cases "create_artifact now sm ty fmt p q")
  have k: "artifact_counter sm' = artifact_counter sm + 1"
    using create_artifact_counter [of now sm ty fmt p q] cr by simp
  have "snd (snd (run_requests fs sm (creates (c # calls)))) = snd (snd (run_requests fs sm' (creates calls)))"
    using cr by (simp add: creates_def c split: prod.splits)
  then show ?case using Cons.IH [of sm'] k by simp
qed

lemma run_creates_suffixes:
  "map id_suffix (fst (run_requests fs sm (creates calls))) =
     map Some [artifact_counter sm + 1 .. artifact_counter sm + int (length calls)]"
proof -
  have len: "length [artifact_counter sm + 1 .. artifact_counter sm + int (length calls)] = length calls"
    by simp
  have "map id_suffix (fst (run_requests fs sm (creates calls)))
     = map (\<lambda>j. case j of JStr s \<Rightarrow> numeric_suffix s | _ \<Rightarrow> None) (map art_id (fst (run_requests fs sm (creates calls))))"
    by (simp add: id_suffix_def comp_def)
  also have "\<dots> = map (\<lambda>(c, n). Some n) (zip calls [artifact_counter sm + 1 .. artifact_counter sm + int (length calls)])"
    unfolding run_creates_ids by (simp add: split_def numeric_suffix_id [simplified])
  also have "\<dots> = map Some [artifact_counter sm + 1 .. artifact_counter sm + int (length calls)]"
  proof -
    have "map (\<lambda>(c, n). Some n) (zip calls [artifact_counter sm + 1 .. artifact_counter sm + int (length calls)])
        = map Some (map snd (zip calls [artifact_counter sm + 1 .. artifact_counter sm + int (length calls)]))"
      unfolding map_map by (rule map_cong) auto
    also have "map snd (zip calls [artifact_counter sm + 1 .. artifact_counter sm + int (length calls)])
        = [artifact_counter sm + 1 .. artifact_counter sm + int (length calls)]"
      by (rule map_snd_zip) (simp only: len)
    finally show ?thesis .
  qed
  finally show ?thesis .
qed

lemma increasing_suffixes:
  assumes "map id_suffix created = map Some ns" "sorted_wrt (<) ns"
  shows "sorted_wrt (\<lambda>a b. \<exists>m n. id_suffix a = Some m \<and> id_suffix b = Some n \<and> m < n) created"
proof -
  have "sorted_wrt (\<lambda>x y. \<exists>m n. x = Some m \<and> y = Some n \<and> m < n) (map Some ns)"
    unfolding sorted_wrt_map using assms(2) by (rule sorted_wrt_mono_rel [rotated]) simp
  then have "sorted_wrt (\<lambda>x y. \<exists>m n. x = Some m \<and> y = Some n \<and> m < n) (map id_suffix created)"
    by (simp only: assms(1))
  then show ?thesis by (simp only: sorted_wrt_map)
qed

section \<open>The interaction log and its retention limit\<close>

lemma add_interaction_within_limit:
  assumes "1 \<le> limit"
  shows "int (length (interactions (add_interaction limit now sm q p c r ids))) \<le> limit"
  using assms by (auto simp: add_interaction_def Let_def slice_from_def)

lemma add_interaction_drops_oldest:
  assumes "1 \<le> limit" "int (length (interactions sm)) = limit"
  shows "interactions (add_interaction limit now sm q p c r ids) =
           tl (interactions sm) @ [new_interaction now q p c r ids]"
proof -
  from assms have ne: "interactions sm \<noteq> []" by auto
  have "drop (Suc 0) (interactions sm @ [new_interaction now q p c r ids])
      = tl (interactions sm) @ [new_interaction now q p c r ids]"
    using ne by (cases "interactions sm") auto
  then show ?thesis
    using assms by (simp add: add_interaction_def Let_def slice_from_def)
qed

lemma add_interaction_appends:
  assumes "int (length (interactions sm)) < limit"
  shows "interactions (add_interaction limit now sm q p c r ids) =
           interactions sm @ [new_interaction now q p c r ids]"
  using assms by (simp add: add_interaction_def Let_def)

text \<open>
  Claim C7. With a limit of at least one the log never holds more entries than the
  limit, and an addition to a full log drops the oldest entry and keeps the others in
  order (the three lemmas above). With the limit zero the claim fails: the slice
  \<open>interactions[-0:]\<close> is the whole list, so the first addition to an empty log leaves
  one entry in a log that may hold none.
\<close>

theorem zero_limit_keeps_entry:
  "interactions (add_interaction 0 now init q p c r ids) = [new_interaction now q p c r ids]
   \<and> int (length (interactions (add_interaction 0 now init q p c r ids))) > 0"
  by (simp add: add_interaction_def Let_def slice_from_def init_def)

section \<open>Classification of output files\<close>

lemma classify_table:
  "(classify_suffix ext = ''chart'') = (lower ext = ''.png'' \<or> lower ext = ''.jpg'')"
  "(classify_suffix ext = ''table'') = (lower ext = ''.csv'' \<or> lower ext = ''.xlsx'')"
  "(classify_suffix ext = ''file'') = (lower ext \<notin> set [''.png'', ''.jpg'', ''.csv'', ''.xlsx''])"
  by (auto simp: classify_suffix_def type_map_def)

lemma collect_ignores_content:
  "collect_output_files h dest (map (\<lambda>e. e\<lparr>entry_content := f e\<rparr>) es) acc =
   collect_output_files h dest es acc"
  by (induction es arbitrary: acc) (auto simp: Let_def split: option.splits)

lemma collect_single:
  "collect_output_files h dest [e] [] =
     (if entry_is_file e
      then (case move_error h (entry_name e) of
              Some msg \<Rightarrow> Inl msg
            | None \<Rightarrow> Inr [(classify_suffix (path_suffix (entry_name e)),
                           Path (str_path dest @ ''/'' @ entry_name e))])
      else Inr [])"
  by (simp add: Let_def file_type_of_def split: option.splits)

text \<open>
  Claim C8, as stated, fails: the extension \<open>.PNG\<close> is none of \<open>.png\<close>, \<open>.jpg\<close>,
  \<open>.csv\<close> and \<open>.xlsx\<close>, and the collector classifies it as a chart, not as a file,
  because the extension is put in lower case before the table is consulted.
\<close>

theorem uppercase_extension_is_chart:
  "''.PNG'' \<notin> set [''.png'', ''.jpg'', ''.csv'', ''.xlsx'']
   \<and> path_suffix ''PLOT.PNG'' = ''.PNG''
   \<and> classify_suffix ''.PNG'' = ''chart''
   \<and> file_type_of ''PLOT.PNG'' = ''chart''
   \<and> file_type_of ''PLOT.PNG'' \<noteq> ''file''"
  by code_simp

text \<open>
  Claim C8, amended. The classification is a function of the extension in lower case:
  it is \<open>chart\<close> exactly for \<open>.png\<close> and \<open>.jpg\<close>, \<open>table\<close> exactly for \<open>.csv\<close> and
  \<open>.xlsx\<close>, and \<open>file\<close> exactly for every other extension, letter case
  disregarded. The collector records a file under the classification of the
  extension of its name, and its result does not depend on the content of the files.
\<close>

theorem classification_by_lowercase_extension:
  "(classify_suffix ext = ''chart'') = (lower ext = ''.png'' \<or> lower ext = ''.jpg'')
   \<and> (classify_suffix ext = ''table'') = (lower ext = ''.csv'' \<or> lower ext = ''.xlsx'')
   \<and> (classify_suffix ext = ''file'') = (lower ext \<notin> set [''.png'', ''.jpg'', ''.csv'', ''.xlsx''])
   \<and> collect_output_files h dest [e] [] =
        (if entry_is_file e
         then (case move_error h (entry_name e) of
                 Some msg \<Rightarrow> Inl msg
               | None \<Rightarrow> Inr [(classify_suffix (path_suffix (entry_name e)),
                              Path (str_path dest @ ''/'' @ entry_name e))])
         else Inr [])
   \<and> collect_output_files h dest (map (\<lambda>e. e\<lparr>entry_content := f e\<rparr>) es) acc =
        collect_output_files h dest es acc"
  using classify_table [of ext] collect_single [of h dest e] collect_ignores_content [of h dest f es acc]
  by (intro conjI) assumption+

section \<open>Results of an execution\<close>

lemma str_int_60: "str_int 60 = ''60''"
  by code_simp

lemma execute_cases:
  "execute use_docker timeout docker_image h code data_files session_output_dir =
     (case copy_data_files h data_files of
        Some msg \<Rightarrow> Inl msg
      | None \<Rightarrow>
          (case backend_run use_docker timeout docker_image h code of
             Completed returncode out err written \<Rightarrow>
               (case collect_output_files h session_output_dir written [] of
                  Inl msg \<Rightarrow> Inr (failed_result
                     ((if use_docker then ''Docker execution error: '' else ''Subprocess execution error: '') @ msg))
                | Inr files \<Rightarrow>
                    Inr \<lparr>success = (returncode = 0), stdout = out, stderr = err,
                         output_files = files, error = None\<rparr>)
           | TimeoutExpired \<Rightarrow>
               Inr (failed_result ((if use_docker then ''Docker execution timed out after ''
                                    else ''Execution timed out after '') @ str_int timeout @ ''s''))
           | Raised msg \<Rightarrow> Inr (failed_result
                ((if use_docker then ''Docker execution error: '' else ''Subprocess execution error: '') @ msg))))"
  by (simp add: execute_def execute_docker_def execute_subprocess_def backend_run_def
      split: option.splits run_outcome.splits sum.splits)

text \<open>
  Claim C4, as stated, fails for the container backend: with the configured timeout
  of 60 seconds, a script that runs 70 seconds after 5 seconds of installation is not
  interrupted, because the container is waited for 90 seconds; the result reports
  success.
\<close>

theorem docker_script_over_timeout_succeeds:
  "(70 :: real) > real_of_int 60
   \<and> spawn (slow_host 70) (docker_cmd (slow_host 70) ''python:3.11-slim'') None
        (docker_script (slow_host 70) ''pass'') = Runs 70 0 (Text ''done'') (Text []) []
   \<and> execute True 60 ''python:3.11-slim'' (slow_host 70) ''pass'' [] (Path ''/out'') =
       Inr \<lparr>success = True, stdout = ''done'', stderr = [], output_files = [], error = None\<rparr>"
  by (simp add: execute_def execute_docker_def run_docker_backend_def subprocess_run_def
      slow_host_def)

text \<open>
  Claim C4, amended. When the data files were copied and the child started, and the
  child is still running when the backend's wait ends (the script runs longer than
  the configured timeout on the local-process backend; installation and script
  together run longer than the configured timeout plus 30 seconds on the container
  backend), \<open>execute\<close> returns \<open>success = False\<close>, empty output streams, an empty
  mapping of output files and the backend's timeout message, which holds the
  configured timeout and differs from every message for a failure to launch.
\<close>

theorem timeout_result:
  assumes "copy_data_files h data_files = None"
    and "(if use_docker then spawn h (docker_cmd h docker_image) None (docker_script h code)
          else spawn h [sys_executable h, temp_dir h @ ''/execute.py'']
                 (Some [(''MPLBACKEND'', ''Agg'')]) (subprocess_script h code))
         = Runs seconds returncode out err written"
    and "(if use_docker then pip_install_seconds h + seconds > real_of_int timeout + 30
          else seconds > real_of_int timeout)"
  shows "execute use_docker timeout docker_image h code data_files session_output_dir =
           Inr \<lparr>success = False, stdout = [], stderr = [], output_files = [],
                error = Some ((if use_docker then ''Docker execution timed out after ''
                               else ''Execution timed out after '') @ str_int timeout @ ''s'')\<rparr>
         \<and> (if use_docker then ''Docker execution timed out after '' else ''Execution timed out after '')
               @ str_int timeout @ ''s''
             \<noteq> (if use_docker then ''Docker execution error: '' else ''Subprocess execution error: '') @ msg"
  using assms
  by (auto simp: execute_def execute_docker_def execute_subprocess_def run_docker_backend_def
      run_subprocess_backend_def subprocess_run_def failed_result_def split: if_splits)

theorem timeout_result_witness:
  "execute False 60 ''python:3.11-slim'' (slow_host 70) ''pass'' [] (Path ''/out'') =
     Inr \<lparr>success = False, stdout = [], stderr = [], output_files = [],
          error = Some ''Execution timed out after 60s''\<rparr>
   \<and> execute True 60 ''python:3.11-slim'' (slow_host 100) ''pass'' [] (Path ''/out'') =
     Inr \<lparr>success = False, stdout = [], stderr = [], output_files = [],
          error = Some ''Docker execution timed out after 60s''\<rparr>"
proof -
  have l: "execute False 60 ''python:3.11-slim'' (slow_host 70) ''pass'' [] (Path ''/out'') =
     Inr \<lparr>success = False, stdout = [], stderr = [], output_files = [],
          error = Some ''Execution timed out after 60s''\<rparr>"
    using timeout_result [of "slow_host 70" "[]" False "''python:3.11-slim''" "''pass''"
        70 0 "Text ''done''" "Text []" "[]" 60 "Path ''/out''"]
    by (simp add: slow_host_def str_int_60)
  have d: "execute True 60 ''python:3.11-slim'' (slow_host 100) ''pass'' [] (Path ''/out'') =
     Inr \<lparr>success = False, stdout = [], stderr = [], output_files = [],
          error = Some ''Docker execution timed out after 60s''\<rparr>"
    using timeout_result [of "slow_host 100" "[]" True "''python:3.11-slim''" "''pass''"
        100 0 "Text ''done''" "Text []" "[]" 60 "Path ''/out''"]
    by (simp add: slow_host_def str_int_60)
  from l d show ?thesis by simp
qed

text \<open>
  Claim C6, as stated, fails. On the first machine the script is launched, runs to
  completion and exits with status zero, but \<open>shutil.move\<close> raises while the output
  files are collected. On the second the script exits with status zero after
  printing a byte that is not UTF-8, and decoding its output raises. Both exceptions
  are caught by \<open>except Exception\<close>: the result has \<open>success = False\<close> and the error
  field set.
\<close>

theorem completed_run_sets_error:
  "backend_child False ''python:3.11-slim'' blocked_host ''pass'' =
     Runs 1 0 (Text ''5 rows'') (Text [])
       [\<lparr>entry_name = ''table.csv'', entry_is_file = True, entry_content = ''a,b''\<rparr>]
   \<and> \<not> wait_exceeded False 60 blocked_host 1
   \<and> execute False 60 ''python:3.11-slim'' blocked_host ''pass'' [] (Path ''/out'') =
     Inr \<lparr>success = False, stdout = [], stderr = [], output_files = [],
          error = Some ''Subprocess execution error: Permission denied''\<rparr>
   \<and> backend_child False ''python:3.11-slim'' garbled_host ''pass'' =
     Runs 1 0 (Undecodable ''invalid start byte'') (Text []) []
   \<and> \<not> wait_exceeded False 60 garbled_host 1
   \<and> execute False 60 ''python:3.11-slim'' garbled_host ''pass'' [] (Path ''/out'') =
     Inr \<lparr>success = False, stdout = [], stderr = [], output_files = [],
          error = Some ''Subprocess execution error: invalid start byte''\<rparr>"
  by (simp add: execute_def execute_subprocess_def backend_child_def wait_exceeded_def
      run_subprocess_backend_def subprocess_run_def blocked_host_def garbled_host_def
      failed_result_def file_type_of_def Let_def)

lemma backend_run_child:
  "backend_run use_docker timeout docker_image h code =
     (case backend_child use_docker docker_image h code of
        LaunchError e \<Rightarrow> Raised e
      | Runs seconds returncode out err written \<Rightarrow>
          if wait_exceeded use_docker timeout h seconds then TimeoutExpired
          else (case out of
                  Undecodable e \<Rightarrow> Raised e
                | Text out_text \<Rightarrow>
                    (case err of
                       Undecodable e \<Rightarrow> Raised e
                     | Text err_text \<Rightarrow> Completed returncode out_text err_text written)))"
  by (simp add: backend_run_def backend_child_def wait_exceeded_def run_docker_backend_def
      run_subprocess_backend_def subprocess_run_def split: child.splits)

lemma completed_and_collected:
  assumes "copy_data_files h data_files = None"
    and "backend_child use_docker docker_image h code =
           Runs seconds returncode (Text out) (Text err) written"
    and "\<not> wait_exceeded use_docker timeout h seconds"
    and "collect_output_files h session_output_dir written [] = Inr files"
  shows "execute use_docker timeout docker_image h code data_files session_output_dir =
           Inr \<lparr>success = (returncode = 0), stdout = out, stderr = err,
                output_files = files, error = None\<rparr>"
  using assms by (simp add: execute_cases backend_run_child)

lemma error_only_on_failure:
  assumes "execute use_docker timeout docker_image h code data_files session_output_dir = Inr r"
    and "error r \<noteq> None"
  shows "\<not> success r \<and> stdout r = [] \<and> stderr r = [] \<and> output_files r = []
         \<and> ((\<exists>msg. backend_child use_docker docker_image h code = LaunchError msg)
            \<or> (\<exists>seconds returncode out err written.
                  backend_child use_docker docker_image h code =
                    Runs seconds returncode out err written
                  \<and> (wait_exceeded use_docker timeout h seconds
                     \<or> (\<exists>msg. out = Undecodable msg)
                     \<or> (\<exists>msg. err = Undecodable msg)
                     \<or> (\<exists>msg. collect_output_files h session_output_dir written [] = Inl msg))))"
proof (cases "backend_child use_docker docker_image h code")
  case (LaunchError e)
  with assms show ?thesis
    by (auto simp: execute_cases backend_run_child failed_result_def split: option.splits)
next
  case (Runs seconds returncode out err written)
  show ?thesis
  proof (cases "wait_exceeded use_docker timeout h seconds")
    case True
    with Runs assms show ?thesis
      by (auto simp: execute_cases backend_run_child failed_result_def split: option.splits)
  next
    case False
    show ?thesis
    proof (cases out)
      case (Undecodable e)
      with False Runs assms show ?thesis
        by (auto simp: execute_cases backend_run_child failed_result_def split: option.splits)
    next
      case out: (Text out_text)
      show ?thesis
      proof (cases err)
        case (Undecodable e)
        with out False Runs assms show ?thesis
          by (auto simp: execute_cases backend_run_child failed_result_def split: option.splits)
      next
        case (Text err_text)
        with out False Runs assms show ?thesis
          by (auto simp: execute_cases backend_run_child failed_result_def
              split: option.splits sum.splits)
      qed
    qed
  qed
qed

text \<open>
  Claim C6, amended. When the backend launched the script, the script ran to
  completion within the wait, both of its output streams decode as UTF-8 and the
  collection of the output files raised no error, the success flag is true exactly
  when the exit status is zero, the error field is unset and both output streams are
  the child's; so a script that exits non-zero gives \<open>success = False\<close>, no error and
  its error stream. The error field is set only when the launch failed, the wait
  timed out, an output stream of the child could not be decoded or the collection of
  the output files failed, and then the success flag is false and nothing else is
  published.
\<close>

theorem completed_run_result:
  "(copy_data_files h data_files = None \<longrightarrow>
    backend_child use_docker docker_image h code =
      Runs seconds returncode (Text out) (Text err) written \<longrightarrow>
    \<not> wait_exceeded use_docker timeout h seconds \<longrightarrow>
    collect_output_files h session_output_dir written [] = Inr files \<longrightarrow>
    execute use_docker timeout docker_image h code data_files session_output_dir =
      Inr \<lparr>success = (returncode = 0), stdout = out, stderr = err,
           output_files = files, error = None\<rparr>)
   \<and> (execute use_docker timeout docker_image h code data_files session_output_dir = Inr r \<longrightarrow>
      error r \<noteq> None \<longrightarrow>
      \<not> success r \<and> stdout r = [] \<and> stderr r = [] \<and> output_files r = []
      \<and> ((\<exists>msg. backend_child use_docker docker_image h code = LaunchError msg)
         \<or> (\<exists>seconds returncode out err written.
               backend_child use_docker docker_image h code =
                 Runs seconds returncode out err written
               \<and> (wait_exceeded use_docker timeout h seconds
                  \<or> (\<exists>msg. out = Undecodable msg)
                  \<or> (\<exists>msg. err = Undecodable msg)
                  \<or> (\<exists>msg. collect_output_files h session_output_dir written [] = Inl msg)))))"
  using completed_and_collected [of h data_files use_docker docker_image code seconds returncode
      out err written timeout session_output_dir files]
    error_only_on_failure [of use_docker timeout docker_image h code data_files session_output_dir r]
  by blast

theorem completed_run_result_witness:
  "execute False 60 ''python:3.11-slim'' (plain_host 1 ''Traceback'') ''raise'' [] (Path ''/out'') =
     Inr \<lparr>success = False, stdout = [], stderr = ''Traceback'', output_files = [], error = None\<rparr>
   \<and> execute False 60 ''python:3.11-slim'' (plain_host 0 []) ''pass'' [] (Path ''/out'') =
     Inr \<lparr>success = True, stdout = [], stderr = [], output_files = [], error = None\<rparr>
   \<and> ((\<exists>msg. backend_child False ''python:3.11-slim'' garbled_host ''pass'' = LaunchError msg)
      \<or> (\<exists>seconds returncode out err written.
            backend_child False ''python:3.11-slim'' garbled_host ''pass'' =
              Runs seconds returncode out err written
            \<and> (wait_exceeded False 60 garbled_host seconds
               \<or> (\<exists>msg. out = Undecodable msg)
               \<or> (\<exists>msg. err = Undecodable msg)
               \<or> (\<exists>msg. collect_output_files garbled_host (Path ''/out'') written [] = Inl msg))))"
proof -
  have b: "backend_child False ''python:3.11-slim'' (plain_host rc e) c =
             Runs 1 rc (Text []) (Text e) []" for rc e c
    by (simp add: backend_child_def plain_host_def)
  have w: "\<not> wait_exceeded False 60 (plain_host rc e) 1" for rc e
    by (simp add: wait_exceeded_def)
  have a: "execute False 60 ''python:3.11-slim'' (plain_host 1 ''Traceback'') ''raise'' [] (Path ''/out'') =
     Inr \<lparr>success = False, stdout = [], stderr = ''Traceback'', output_files = [], error = None\<rparr>"
    using completed_run_result [where h = "plain_host 1 ''Traceback''" and data_files = "[]"
        and use_docker = False and timeout = 60 and docker_image = "''python:3.11-slim''"
        and code = "''raise''" and seconds = 1 and returncode = 1 and out = "[]"
        and err = "''Traceback''" and written = "[]" and session_output_dir = "Path ''/out''"
        and files = "[]"]
    by (simp add: b w)
  have z: "execute False 60 ''python:3.11-slim'' (plain_host 0 []) ''pass'' [] (Path ''/out'') =
     Inr \<lparr>success = True, stdout = [], stderr = [], output_files = [], error = None\<rparr>"
    using completed_run_result [where h = "plain_host 0 []" and data_files = "[]"
        and use_docker = False and timeout = 60 and docker_image = "''python:3.11-slim''"
        and code = "''pass''" and seconds = 1 and returncode = 0 and out = "[]" and err = "[]"
        and written = "[]" and session_output_dir = "Path ''/out''" and files = "[]"]
    by (simp add: b w)
  have e: "execute False 60 ''python:3.11-slim'' garbled_host ''pass'' [] (Path ''/out'') =
     Inr \<lparr>success = False, stdout = [], stderr = [], output_files = [],
          error = Some ''Subprocess execution error: invalid start byte''\<rparr>"
    by (simp add: execute_def execute_subprocess_def run_subprocess_backend_def
      subprocess_run_def garbled_host_def failed_result_def)
  have c: "(\<exists>msg. backend_child False ''python:3.11-slim'' garbled_host ''pass'' = LaunchError msg)
      \<or> (\<exists>seconds returncode out err written.
            backend_child False ''python:3.11-slim'' garbled_host ''pass'' =
              Runs seconds returncode out err written
            \<and> (wait_exceeded False 60 garbled_host seconds
               \<or> (\<exists>msg. out = Undecodable msg)
               \<or> (\<exists>msg. err = Undecodable msg)
               \<or> (\<exists>msg. collect_output_files garbled_host (Path ''/out'') written [] = Inl msg)))"
    using completed_run_result [where h = garbled_host and data_files = "[]"
        and use_docker = False and timeout = 60 and docker_image = "''python:3.11-slim''"
        and code = "''pass''" and session_output_dir = "Path ''/out''"
        and r = "\<lparr>success = False, stdout = [], stderr = [], output_files = [],
          error = Some ''Subprocess execution error: invalid start byte''\<rparr>"] e
    by simp
  from a z c show ?thesis by blast
qed

section \<open>Saving and loading a session\<close>

lemma Interaction_init_to_dict: "Interaction_init now (interaction_to_dict i) = Inr i"
  by (simp add: Interaction_init_def interaction_to_dict_def)

lemma load_interaction_list_to_dict:
  "load_interaction_list now (map interaction_to_dict xs) = Inr xs"
  by (induction xs) (simp_all add: Interaction_init_to_dict)

lemma Path_str_path: "Path (str_path p) = p"
  by (cases p) simp

lemma Artifact_load_to_dict: "Artifact_load (artifact_to_dict a) = Inr a"
  by (simp add: Artifact_load_def artifact_to_dict_def Path_str_path)

lemma dict_set_fresh: "k \<notin> fst ` set kvs \<Longrightarrow> dict_set kvs k v = kvs @ [(k, v)]"
  by (induction kvs) auto

lemma load_artifacts_to_dict:
  "distinct (map fst (acc @ xs)) \<Longrightarrow>
   load_artifacts (map (\<lambda>(k, v). (k, artifact_to_dict v)) xs) acc = (Inr (), acc @ xs)"
proof (induction xs arbitrary: acc)
  case Nil
  then show ?case by simp
next
  case (Cons x xs)
  obtain k a where x: "x = (k, a)" by (cases x)
  from Cons.prems have fresh: "k \<notin> fst ` set acc" by (auto simp: x)
  from Cons.prems have d: "distinct (map fst ((acc @ [(k, a)]) @ xs))" by (simp add: x)
  show ?case
    using Cons.IH [OF d] by (simp add: x Artifact_load_to_dict dict_set_fresh [OF fresh])
qed

lemma load_interactions_saved:
  "load_interactions now' (session_data_of now sm) = Inr (interactions sm)"
  by (simp add: load_interactions_def session_data_of_def load_interaction_list_to_dict)

lemma load_session_saved:
  assumes "distinct (map fst (artifacts sm))"
    and "fs filepath = Some (File (Some (session_data_of now sm)))"
  shows "load_session now' fs sm0 filepath =
     (if artifacts sm = [] then (Inr (), sm0\<lparr>interactions := interactions sm, artifacts := []\<rparr>)
      else (case suffixes (map fst (artifacts sm)) of
              Inl e \<Rightarrow> (Inl (load_error filepath e), sm0\<lparr>interactions := interactions sm, artifacts := artifacts sm\<rparr>)
            | Inr ns \<Rightarrow> (Inr (), sm0\<lparr>interactions := interactions sm, artifacts := artifacts sm,
                             artifact_counter := py_max ns 0\<rparr>)))"
proof -
  have la: "load_artifacts (map (\<lambda>(k, v). (k, artifact_to_dict v)) (artifacts sm)) [] = (Inr (), artifacts sm)"
    using load_artifacts_to_dict [of "[]" "artifacts sm"] assms(1) by simp
  have dg: "dict_get (session_data_of now sm) ''artifacts'' (JObj []) =
        Inr (JObj (map (\<lambda>(k, v). (k, artifact_to_dict v)) (artifacts sm)))"
    by (simp add: session_data_of_def)
  show ?thesis
    unfolding load_session_def
    by (simp add: assms(2) load_interactions_saved dg la Let_def split: sum.splits)
qed

lemma save_session_ok:
  "save_session now fs sm filepath = (Inr (), fs') \<Longrightarrow>
   fs' filepath = Some (File (Some (session_data_of now sm)))"
  by (auto simp: save_session_def split: option.splits node.splits)

text \<open>
  Claim C5. For every session state, a successful save to a path followed by a load
  from that path (into any manager) leaves interactions and artifacts equal to the
  saved ones, each artifact's path being rebuilt from the string the document holds;
  the load returns without error when every identifier has a numeric suffix, as all
  identifiers made by \<open>create_artifact\<close> have. The keys of the artifacts are those
  of a Python dictionary, hence distinct.
\<close>

theorem save_load_round_trip:
  assumes "distinct (map fst (artifacts sm))"
    and "save_session now fs sm filepath = (Inr (), fs')"
  shows "interactions (snd (load_session now' fs' sm0 filepath)) = interactions sm
       \<and> artifacts (snd (load_session now' fs' sm0 filepath)) = artifacts sm
       \<and> map (art_path \<circ> snd) (artifacts (snd (load_session now' fs' sm0 filepath))) =
           map (\<lambda>(k, a). Path (str_path (art_path a))) (artifacts sm)
       \<and> (list_all (\<lambda>k. numeric_suffix k \<noteq> None) (map fst (artifacts sm)) \<longrightarrow>
            fst (load_session now' fs' sm0 filepath) = Inr ())"
proof -
  have sv: "fs' filepath = Some (File (Some (session_data_of now sm)))"
    using assms(2) by (rule save_session_ok)
  have ld: "load_session now' fs' sm0 filepath =
     (if artifacts sm = [] then (Inr (), sm0\<lparr>interactions := interactions sm, artifacts := []\<rparr>)
      else (case suffixes (map fst (artifacts sm)) of
              Inl e \<Rightarrow> (Inl (load_error filepath e), sm0\<lparr>interactions := interactions sm, artifacts := artifacts sm\<rparr>)
            | Inr ns \<Rightarrow> (Inr (), sm0\<lparr>interactions := interactions sm, artifacts := artifacts sm,
                             artifact_counter := py_max ns 0\<rparr>)))"
    using assms(1) sv by (rule load_session_saved)
  have i: "interactions (snd (load_session now' fs' sm0 filepath)) = interactions sm"
    unfolding ld by (simp split: sum.splits)
  have a: "artifacts (snd (load_session now' fs' sm0 filepath)) = artifacts sm"
    unfolding ld by (simp split: sum.splits)
  have p: "map (art_path \<circ> snd) (artifacts sm) = map (\<lambda>(k, a). Path (str_path (art_path a))) (artifacts sm)"
    by (simp add: Path_str_path split_def comp_def)
  have s: "suffixes ks \<noteq> Inl e" if "list_all (\<lambda>k. numeric_suffix k \<noteq> None) ks" for ks e
    using that by (induction ks) (auto split: sum.splits)
  have r: "list_all (\<lambda>k. numeric_suffix k \<noteq> None) (map fst (artifacts sm)) \<longrightarrow>
            fst (load_session now' fs' sm0 filepath) = Inr ()"
    unfolding ld using s by (auto split: sum.splits)
  from i a p r show ?thesis by simp
qed

lemma example_session_keys:
  "distinct (map fst (artifacts example_session))"
  "list_all (\<lambda>k. numeric_suffix k \<noteq> None) (map fst (artifacts example_session))"
  by code_simp+

theorem save_load_round_trip_witness:
  "distinct (map fst (artifacts example_session))
   \<and> fst (save_session ''2024-01-01T11:00:00'' Map.empty example_session (Path ''/out/s.json'')) = Inr ()
   \<and> interactions (snd (load_session ''2024-01-02T09:00:00''
         (snd (save_session ''2024-01-01T11:00:00'' Map.empty example_session (Path ''/out/s.json'')))
         init (Path ''/out/s.json''))) = interactions example_session
   \<and> artifacts (snd (load_session ''2024-01-02T09:00:00''
         (snd (save_session ''2024-01-01T11:00:00'' Map.empty example_session (Path ''/out/s.json'')))
         init (Path ''/out/s.json''))) = artifacts example_session
   \<and> fst (load_session ''2024-01-02T09:00:00''
         (snd (save_session ''2024-01-01T11:00:00'' Map.empty example_session (Path ''/out/s.json'')))
         init (Path ''/out/s.json'')) = Inr ()"
proof -
  have sv: "save_session ''2024-01-01T11:00:00'' Map.empty example_session (Path ''/out/s.json'') =
      (Inr (), snd (save_session ''2024-01-01T11:00:00'' Map.empty example_session (Path ''/out/s.json'')))"
    by (simp add: save_session_def)
  show ?thesis
    using save_load_round_trip [OF example_session_keys(1) sv, of "''2024-01-02T09:00:00''" init]
      example_session_keys sv
    by (simp add: save_session_def)
qed

lemma suffixes_map: "suffixes ks = Inr ns \<Longrightarrow> map numeric_suffix ks = map Some ns"
  by (induction ks arbitrary: ns) (auto split: option.splits sum.splits)

lemma py_max_Max: "ns \<noteq> [] \<Longrightarrow> py_max ns d = Max (set ns)"
proof (cases ns)
  case Nil
  assume "ns \<noteq> []"
  with Nil show ?thesis by simp
next
  case (Cons a list)
  have "fold max list a = Max (set (a # list))"
    by (rule Max.set_eq_fold [symmetric])
  with Cons show ?thesis by (simp add: py_max_def)
qed

lemma suffixes_length: "suffixes ks = Inr ns \<Longrightarrow> length ns = length ks"
  by (induction ks arbitrary: ns) (auto split: option.splits sum.splits)

lemma load_session_success:
  assumes "load_session now fs sm filepath = (Inr (), sm')"
  shows "(artifacts sm' = [] \<and> artifact_counter sm' = artifact_counter sm)
       \<or> (artifacts sm' \<noteq> [] \<and> (\<exists>ns. suffixes (map fst (artifacts sm')) = Inr ns
               \<and> artifact_counter sm' = py_max ns 0))"
  using assms
  unfolding load_session_def Let_def
  by (auto split: option.splits node.splits sum.splits prod.splits if_splits)

text \<open>
  Claim C3, amended. After every successful load, when the loaded set of artifacts is
  not empty every loaded identifier has a numeric suffix and the counter equals the
  largest of them (so it is below none of them); when the loaded set is empty the
  counter keeps the value it had before the load, which is zero for a new manager.
\<close>

theorem loaded_counter:
  assumes "load_session now fs sm filepath = (Inr (), sm')"
  shows "if artifacts sm' = [] then artifact_counter sm' = artifact_counter sm
         else (\<exists>ns. map numeric_suffix (map fst (artifacts sm')) = map Some ns
                 \<and> artifact_counter sm' = Max (set ns)
                 \<and> list_all (\<lambda>n. n \<le> artifact_counter sm') ns)"
proof (cases "artifacts sm' = []")
  case True
  with load_session_success [OF assms] show ?thesis by simp
next
  case False
  with load_session_success [OF assms] obtain ns
    where s: "suffixes (map fst (artifacts sm')) = Inr ns"
      and c: "artifact_counter sm' = py_max ns 0" by auto
  have "length ns = length (map fst (artifacts sm'))" using s by (rule suffixes_length)
  with False have ne: "ns \<noteq> []" by auto
  have c': "artifact_counter sm' = Max (set ns)" using c ne by (simp add: py_max_Max)
  have "list_all (\<lambda>n. n \<le> Max (set ns)) ns" by (simp add: list_all_iff)
  with c' suffixes_map [OF s] False show ?thesis by auto
qed


text \<open>
  Claim C3, as stated, fails: a manager whose counter is 1 loads a document without
  artifacts; the load succeeds and the counter is still 1, not zero, because the
  counter is assigned only when the loaded dictionary of artifacts is not empty.
\<close>

theorem empty_document_keeps_counter:
  "artifact_counter chart_session = 1
   \<and> load_session ''2024-01-02T09:00:00'' (fs_with (Some empty_document)) chart_session (Path ''/out/s.json'') =
       (Inr (), \<lparr>interactions = [], artifacts = [], artifact_counter = 1\<rparr>)"
  by code_simp

theorem loaded_counter_witness:
  "load_session ''2024-01-02T09:00:00''
     (fs_with (Some (session_data_of ''2024-01-01T11:00:00'' example_session))) init (Path ''/out/s.json'') =
     (Inr (), example_session)
   \<and> artifacts example_session \<noteq> []
   \<and> (\<exists>ns. map numeric_suffix (map fst (artifacts example_session)) = map Some ns
          \<and> artifact_counter example_session = Max (set ns)
          \<and> list_all (\<lambda>n. n \<le> artifact_counter example_session) ns)"
proof -
  have l: "load_session ''2024-01-02T09:00:00''
     (fs_with (Some (session_data_of ''2024-01-01T11:00:00'' example_session))) init (Path ''/out/s.json'') =
     (Inr (), example_session)"
    by code_simp
  have n: "artifacts example_session \<noteq> []" by code_simp
  from loaded_counter [OF l] n l show ?thesis by simp
qed

text \<open>
  Claim C2, as stated, fails: the document's only artifact entry has no \<open>path\<close>, the
  load raises \<open>IOError\<close> with the \<open>KeyError\<close> as its cause, and the manager, which
  held one interaction and one artifact, is left with none of either: both had been
  assigned before the entry was read.
\<close>

theorem malformed_artifact_changes_state:
  "load_session ''2024-01-02T09:00:00'' (fs_with (Some broken_document)) example_session (Path ''/out/s.json'') =
     (Inl (IOError ''Failed to load or parse session file /out/s.json. '' (KeyError ''path'')),
      \<lparr>interactions = [], artifacts = [], artifact_counter = 1\<rparr>)
   \<and> interactions example_session \<noteq> []
   \<and> artifacts example_session \<noteq> []"
  by code_simp

lemma failed_load_counter:
  assumes "fst (load_session now fs sm filepath) = Inl e"
  shows "artifact_counter (snd (load_session now fs sm filepath)) = artifact_counter sm
         \<and> (e = FileNotFoundError (''Session file not found: '' @ str_path filepath)
            \<or> (\<exists>cause. e = load_error filepath cause))"
  using assms
  unfolding load_session_def Let_def
  by (auto split: option.splits node.splits sum.splits prod.splits if_splits)

lemma early_failure_unchanged:
  assumes "fs filepath = None \<or> fs filepath = Some Directory \<or> fs filepath = Some (File None)
           \<or> (\<exists>d c. fs filepath = Some (File (Some d)) \<and> load_interactions now d = Inl c)"
  shows "\<exists>e. load_session now fs sm filepath = (Inl e, sm)"
  using assms
  unfolding load_session_def Let_def
  by auto

lemma late_failure_state:
  assumes "fs filepath = Some (File (Some d))"
    and "load_interactions now d = Inr loaded"
    and "fst (load_session now fs sm filepath) = Inl e"
  shows "interactions (snd (load_session now fs sm filepath)) = loaded
       \<and> artifacts (snd (load_session now fs sm filepath)) =
           (case dict_get d ''artifacts'' (JObj []) of
              Inr (JObj kvs) \<Rightarrow> snd (load_artifacts kvs [])
            | _ \<Rightarrow> [])"
proof -
  obtain kvs0 where d: "d = JObj kvs0"
    using assms(2) by (cases d) (auto simp: load_interactions_def)
  show ?thesis
  proof (cases "dict_get d ''artifacts'' (JObj [])")
    case (Inl c)
    then show ?thesis by (simp add: d)
  next
    case (Inr v)
    show ?thesis
    proof (cases v)
      case (JObj kvs)
      then show ?thesis
        using assms Inr
        unfolding load_session_def Let_def
        by (auto split: sum.splits prod.splits if_splits)
    qed (use assms Inr in \<open>auto simp: load_session_def Let_def\<close>)
  qed
qed

text \<open>
  Claim C2, amended. Every failing load raises \<open>FileNotFoundError\<close> naming the path
  or \<open>IOError\<close> naming the path and the cause, and leaves the identifier counter as
  it was. When the file is missing, is not readable as a JSON document, or its
  interactions are malformed, the whole manager is as it was before the call. When
  the failure comes later (a malformed artifacts collection or artifact entry, an
  identifier without a numeric suffix), the interactions are already those of the
  document and the artifacts are those stored before the failure.
\<close>

theorem failed_load_state:
  "(fst (load_session now fs sm filepath) = Inl e \<longrightarrow>
      artifact_counter (snd (load_session now fs sm filepath)) = artifact_counter sm
      \<and> (e = FileNotFoundError (''Session file not found: '' @ str_path filepath)
         \<or> (\<exists>cause. e = load_error filepath cause)))
   \<and> (fs filepath = None \<or> fs filepath = Some Directory \<or> fs filepath = Some (File None)
       \<or> (\<exists>d c. fs filepath = Some (File (Some d)) \<and> load_interactions now d = Inl c) \<longrightarrow>
      (\<exists>e. load_session now fs sm filepath = (Inl e, sm)))
   \<and> (fs filepath = Some (File (Some d)) \<longrightarrow> load_interactions now d = Inr loaded \<longrightarrow>
      fst (load_session now fs sm filepath) = Inl e \<longrightarrow>
      interactions (snd (load_session now fs sm filepath)) = loaded
      \<and> artifacts (snd (load_session now fs sm filepath)) =
           (case dict_get d ''artifacts'' (JObj []) of
              Inr (JObj kvs) \<Rightarrow> snd (load_artifacts kvs [])
            | _ \<Rightarrow> []))"
  using failed_load_counter [of now fs sm filepath e]
    early_failure_unchanged [of fs filepath now sm]
    late_failure_state [of fs filepath d now loaded sm e]
  by blast

theorem failed_load_state_witness:
  "load_session ''2024-01-02T09:00:00'' Map.empty example_session (Path ''/out/s.json'') =
     (Inl (FileNotFoundError ''Session file not found: /out/s.json''), example_session)
   \<and> (\<exists>e. load_session ''2024-01-02T09:00:00'' (fs_with None) example_session (Path ''/out/s.json'') =
          (Inl e, example_session))
   \<and> artifact_counter (snd (load_session ''2024-01-02T09:00:00'' (fs_with (Some broken_document))
        example_session (Path ''/out/s.json''))) = artifact_counter example_session
   \<and> interactions (snd (load_session ''2024-01-02T09:00:00'' (fs_with (Some broken_document))
        example_session (Path ''/out/s.json''))) = []
   \<and> artifacts (snd (load_session ''2024-01-02T09:00:00'' (fs_with (Some broken_document))
        example_session (Path ''/out/s.json''))) = []"
proof -
  let ?p = "Path ''/out/s.json''" and ?n = "''2024-01-02T09:00:00''"
  let ?e = "IOError ''Failed to load or parse session file /out/s.json. '' (KeyError ''path'')"
  have a: "load_session ?n Map.empty example_session ?p =
     (Inl (FileNotFoundError ''Session file not found: /out/s.json''), example_session)"
    by (simp add: load_session_def)
  have b: "\<exists>e. load_session ?n (fs_with None) example_session ?p = (Inl e, example_session)"
    using failed_load_state [of ?n "fs_with None" example_session ?p]
    by (simp add: fs_with_def)
  have f: "fst (load_session ?n (fs_with (Some broken_document)) example_session ?p) = Inl ?e"
    by code_simp
  have li: "load_interactions ?n broken_document = Inr []" by code_simp
  have la: "(case dict_get broken_document ''artifacts'' (JObj []) of
              Inr (JObj kvs) \<Rightarrow> snd (load_artifacts kvs [])
            | _ \<Rightarrow> []) = []" by code_simp
  have c: "artifact_counter (snd (load_session ?n (fs_with (Some broken_document)) example_session ?p))
             = artifact_counter example_session
       \<and> interactions (snd (load_session ?n (fs_with (Some broken_document)) example_session ?p)) = []
       \<and> artifacts (snd (load_session ?n (fs_with (Some broken_document)) example_session ?p)) = []"
    using failed_load_state [of ?n "fs_with (Some broken_document)" example_session ?p ?e
        broken_document "[]"] f li la
    by (simp add: fs_with_def)
  from a b c show ?thesis by simp
qed

section \<open>Identifiers are never allocated twice\<close>

lemma registry_inv_init: "registry_inv init"
  by (simp add: registry_inv_def init_def)

lemma suffixes_total:
  "list_all (\<lambda>k. numeric_suffix k \<noteq> None) ks \<Longrightarrow> \<exists>ns. suffixes ks = Inr ns"
  by (induction ks) (auto split: sum.splits)

lemma registry_inv_reload:
  assumes "registry_inv sm"
    and sv: "fs' filepath = Some (File (Some (session_data_of now sm)))"
  shows "load_session now' fs' sm filepath = (Inr (), sm)"
proof -
  from assms(1) have dist: "distinct (map fst (artifacts sm))"
    by (simp add: registry_inv_def)
  have ld: "load_session now' fs' sm filepath =
     (if artifacts sm = [] then (Inr (), sm\<lparr>interactions := interactions sm, artifacts := []\<rparr>)
      else (case suffixes (map fst (artifacts sm)) of
              Inl e \<Rightarrow> (Inl (load_error filepath e), sm\<lparr>interactions := interactions sm, artifacts := artifacts sm\<rparr>)
            | Inr ns \<Rightarrow> (Inr (), sm\<lparr>interactions := interactions sm, artifacts := artifacts sm,
                             artifact_counter := py_max ns 0\<rparr>)))"
    using dist sv by (rule load_session_saved)
  show ?thesis
  proof (cases "artifacts sm = []")
    case True
    then show ?thesis unfolding ld by simp
  next
    case False
    have all: "list_all (\<lambda>k. numeric_suffix k \<noteq> None) (map fst (artifacts sm))"
      using assms(1) by (auto simp: registry_inv_def list_all_iff)
    then obtain ns where ns: "suffixes (map fst (artifacts sm)) = Inr ns"
      using suffixes_total by blast
    have m: "map numeric_suffix (map fst (artifacts sm)) = map Some ns"
      using ns by (rule suffixes_map)
    have len: "length ns = length (map fst (artifacts sm))" using ns by (rule suffixes_length)
    with False have ne: "ns \<noteq> []" by auto
    have setns: "Some ` set ns = numeric_suffix ` fst ` set (artifacts sm)"
    proof -
      have "set (map Some ns) = set (map numeric_suffix (map fst (artifacts sm)))"
        using m by simp
      then show ?thesis by (simp add: image_image)
    qed
    have le: "\<forall>n \<in> set ns. n \<le> artifact_counter sm"
    proof
      fix n assume "n \<in> set ns"
      then have "Some n \<in> numeric_suffix ` fst ` set (artifacts sm)" using setns by blast
      then obtain k a where ka: "(k, a) \<in> set (artifacts sm)" "numeric_suffix k = Some n"
        by force
      with assms(1) show "n \<le> artifact_counter sm"
        by (auto simp: registry_inv_def list_all_iff)
    qed
    have "Some (artifact_counter sm) \<in> numeric_suffix ` fst ` set (artifacts sm)"
      using assms(1) False by (simp add: registry_inv_def)
    then have mem: "artifact_counter sm \<in> set ns" using setns by blast
    have "Max (set ns) = artifact_counter sm"
      using mem le by (intro Max_eqI) auto
    then have "py_max ns 0 = artifact_counter sm" using ne by (simp add: py_max_Max)
    then show ?thesis unfolding ld using False ns by simp
  qed
qed

lemma synced_after_save: "synced (snd (save_session now fs sm filepath)) sm filepath"
  by (auto simp: synced_def save_session_def split: option.splits node.splits)

lemma load_synced:
  assumes "registry_inv sm" "synced fs sm filepath"
  shows "snd (load_session now fs sm filepath) = sm"
  using assms(2) unfolding synced_def
proof (elim disjE exE)
  assume "fs filepath = Some Directory"
  then show ?thesis by (simp add: load_session_def)
next
  fix t assume "fs filepath = Some (File (Some (session_data_of t sm)))"
  with assms(1) have "load_session now fs sm filepath = (Inr (), sm)"
    by (rule registry_inv_reload)
  then show ?thesis by simp
qed

lemma create_artifact_inv:
  assumes "registry_inv sm"
    and "create_artifact now sm ty fmt p q = (a, sm')"
  shows "registry_inv sm'"
    and "art_id a = JStr (ty @ ''_'' @ format_03d (artifact_counter sm + 1))"
    and "artifact_counter sm' = artifact_counter sm + 1"
proof -
  let ?k = "ty @ ''_'' @ format_03d (artifact_counter sm + 1)"
  have sfx: "numeric_suffix ?k = Some (artifact_counter sm + 1)" by (rule numeric_suffix_id)
  have fresh: "?k \<notin> fst ` set (artifacts sm)"
  proof
    assume "?k \<in> fst ` set (artifacts sm)"
    then obtain b where "(?k, b) \<in> set (artifacts sm)" by force
    with assms(1) obtain n where "numeric_suffix ?k = Some n" "n \<le> artifact_counter sm"
      by (auto simp: registry_inv_def list_all_iff)
    with sfx show False by simp
  qed
  have sm': "sm' = sm\<lparr>artifact_counter := artifact_counter sm + 1,
                    artifacts := artifacts sm @ [(?k, a)]\<rparr>"
    and a: "art_id a = JStr ?k"
    using assms(2) dict_set_fresh [OF fresh]
    by (auto simp: create_artifact_def Let_def)
  show "art_id a = JStr ?k" by (rule a)
  show "artifact_counter sm' = artifact_counter sm + 1" by (simp add: sm')
  show "registry_inv sm'"
    using assms(1) fresh a sfx
    by (auto simp: registry_inv_def sm' list_all_iff)
qed

lemma run_requests_ids:
  assumes "registry_inv sm"
    and "case saved of None \<Rightarrow> True | Some filepath \<Rightarrow> synced fs sm filepath"
    and "round_trips_from saved reqs"
    and "run_requests fs sm reqs = (created, fs', sm')"
  shows "registry_inv sm' \<and> artifact_counter sm \<le> artifact_counter sm'
       \<and> distinct (map art_id created)
       \<and> list_all (\<lambda>a. \<exists>k n. art_id a = JStr k \<and> numeric_suffix k = Some n
                       \<and> artifact_counter sm < n \<and> n \<le> artifact_counter sm') created"
  using assms
proof (induction reqs arbitrary: fs sm saved created fs' sm')
  case Nil
  then show ?case by simp
next
  case (Cons r reqs)
  show ?case
  proof (cases r)
    case (Create now ty fmt p q)
    obtain a sm1 where cr: "create_artifact now sm ty fmt p q = (a, sm1)"
      by (cases "create_artifact now sm ty fmt p q")
    obtain created1 fs1 sm2 where rest: "run_requests fs sm1 reqs = (created1, fs1, sm2)"
      by (cases "run_requests fs sm1 reqs")
    from Cons.prems(4) Create cr rest
    have eqs: "created = a # created1" "fs' = fs1" "sm' = sm2" by simp_all
    note c = create_artifact_inv [OF Cons.prems(1) cr]
    have rt: "round_trips_from None reqs" using Cons.prems(3) Create by simp
    have "registry_inv sm2 \<and> artifact_counter sm1 \<le> artifact_counter sm2
       \<and> distinct (map art_id created1)
       \<and> list_all (\<lambda>a. \<exists>k n. art_id a = JStr k \<and> numeric_suffix k = Some n
                       \<and> artifact_counter sm1 < n \<and> n \<le> artifact_counter sm2) created1"
      using c(1) rt rest by (intro Cons.IH [where saved = None]) simp_all
    then have inv2: "registry_inv sm2" and le: "artifact_counter sm1 \<le> artifact_counter sm2"
      and dist: "distinct (map art_id created1)"
      and rng: "list_all (\<lambda>a. \<exists>k n. art_id a = JStr k \<and> numeric_suffix k = Some n
                       \<and> artifact_counter sm1 < n \<and> n \<le> artifact_counter sm2) created1"
      by simp_all
    let ?k = "ty @ ''_'' @ format_03d (artifact_counter sm + 1)"
    have sfx: "numeric_suffix ?k = Some (artifact_counter sm + 1)" by (rule numeric_suffix_id)
    have notin: "art_id a \<notin> set (map art_id created1)"
    proof
      assume "art_id a \<in> set (map art_id created1)"
      then obtain b where b: "b \<in> set created1" "art_id b = art_id a" by auto
      from rng b(1) have "\<exists>k n. art_id b = JStr k \<and> numeric_suffix k = Some n
                       \<and> artifact_counter sm1 < n \<and> n \<le> artifact_counter sm2"
        by (simp add: list_all_iff)
      then obtain k n where "art_id b = JStr k" "numeric_suffix k = Some n"
        "artifact_counter sm1 < n" by blast
      with b(2) c(2) c(3) sfx show False by simp
    qed
    have rng': "list_all (\<lambda>a. \<exists>k n. art_id a = JStr k \<and> numeric_suffix k = Some n
                       \<and> artifact_counter sm < n \<and> n \<le> artifact_counter sm2) created1"
      using rng c(3) by (auto simp: list_all_iff)
    have hd: "\<exists>k n. art_id a = JStr k \<and> numeric_suffix k = Some n
                       \<and> artifact_counter sm < n \<and> n \<le> artifact_counter sm2"
      using c(2) c(3) sfx le by auto
    show ?thesis
      unfolding eqs using inv2 le c(3) dist notin rng' hd by simp
  next
    case (Save now filepath)
    have run: "run_requests (snd (save_session now fs sm filepath)) sm reqs = (created, fs', sm')"
      using Cons.prems(4) Save by simp
    have rt: "round_trips_from (Some filepath) reqs" using Cons.prems(3) Save by simp
    show ?thesis
      using Cons.prems(1) rt run synced_after_save [of now fs sm filepath]
      by (intro Cons.IH [where saved = "Some filepath"]) simp_all
  next
    case (Load now filepath)
    from Cons.prems(3) Load have sv: "saved = Some filepath" and rt: "round_trips_from saved reqs"
      by auto
    from Cons.prems(2) sv have sy: "synced fs sm filepath" by simp
    have same: "snd (load_session now fs sm filepath) = sm"
      using Cons.prems(1) sy by (rule load_synced)
    have run: "run_requests fs sm reqs = (created, fs', sm')"
      using Cons.prems(4) Load same by simp
    show ?thesis
      using Cons.prems(1,2) rt run by (intro Cons.IH [where saved = saved]) simp_all
  qed
qed

text \<open>
  Claim C1, as stated, fails when a create call stands between the save and the load:
  the load sets the counter back to the largest suffix in the saved document, and
  the next create call returns \<open>chart_002\<close>, which the registry had allocated before.
\<close>

theorem stale_load_repeats_identifier:
  "map art_id (fst (run_requests Map.empty init stale_run)) =
     [JStr ''chart_001'', JStr ''chart_002'', JStr ''chart_002'']
   \<and> \<not> distinct (map art_id (fst (run_requests Map.empty init stale_run)))"
  by code_simp

text \<open>
  Claim C1, amended. Whatever requests a new manager serves, create calls, saves and
  loads in any order, provided every load is a round trip (it reads the file of the
  save before it, with no create call between the two), the identifiers its create
  calls return are pairwise distinct. In particular a chart, a save, a load and a
  chart again give \<open>chart_001\<close> and then \<open>chart_002\<close>.
\<close>

theorem created_identifiers_distinct:
  assumes "round_trips reqs"
  shows "distinct (map art_id (fst (run_requests fs init reqs)))"
proof -
  obtain created fs' sm' where r: "run_requests fs init reqs = (created, fs', sm')"
    by (cases "run_requests fs init reqs")
  have "registry_inv sm' \<and> artifact_counter init \<le> artifact_counter sm'
       \<and> distinct (map art_id created)
       \<and> list_all (\<lambda>a. \<exists>k n. art_id a = JStr k \<and> numeric_suffix k = Some n
                       \<and> artifact_counter init < n \<and> n \<le> artifact_counter sm') created"
    using registry_inv_init assms r
    by (intro run_requests_ids [where saved = None]) (simp_all add: round_trips_def)
  then show ?thesis by (simp add: r)
qed

theorem created_identifiers_distinct_witness:
  "round_trips round_trip_run
   \<and> distinct (map art_id (fst (run_requests Map.empty init round_trip_run)))
   \<and> map art_id (fst (run_requests Map.empty init round_trip_run)) =
       [JStr ''chart_001'', JStr ''chart_002'']"
proof -
  have r: "round_trips round_trip_run" by code_simp
  have v: "map art_id (fst (run_requests Map.empty init round_trip_run)) =
       [JStr ''chart_001'', JStr ''chart_002'']" by code_simp
  from created_identifiers_distinct [OF r, of Map.empty] r v show ?thesis by simp
qed

section \<open>One counter for all artifact types, across saves and loads\<close>

lemma create_artifact_appends:
  assumes "registry_inv sm"
    and "create_artifact now sm ty fmt p q = (a, sm')"
  shows "map (JStr \<circ> fst) (artifacts sm') = map (JStr \<circ> fst) (artifacts sm) @ [art_id a]"
proof -
  let ?k = "ty @ ''_'' @ format_03d (artifact_counter sm + 1)"
  have sfx: "numeric_suffix ?k = Some (artifact_counter sm + 1)" by (rule numeric_suffix_id)
  have fresh: "?k \<notin> fst ` set (artifacts sm)"
  proof
    assume "?k \<in> fst ` set (artifacts sm)"
    then obtain b where "(?k, b) \<in> set (artifacts sm)" by force
    with assms(1) obtain n where "numeric_suffix ?k = Some n" "n \<le> artifact_counter sm"
      by (auto simp: registry_inv_def list_all_iff)
    with sfx show False by simp
  qed
  show ?thesis
    using assms(2) dict_set_fresh [OF fresh]
    by (auto simp: create_artifact_def Let_def)
qed

lemma run_requests_numbering:
  assumes "registry_inv sm"
    and "case saved of None \<Rightarrow> True | Some filepath \<Rightarrow> synced fs sm filepath"
    and "round_trips_from saved reqs"
    and "run_requests fs sm reqs = (created, fs', sm')"
  shows "map art_id created =
           map2 (\<lambda>ty n. JStr (ty @ ''_'' @ format_03d n)) (requested_types reqs)
             [artifact_counter sm + 1 .. artifact_counter sm + int (length (requested_types reqs))]
       \<and> artifact_counter sm' = artifact_counter sm + int (length (requested_types reqs))
       \<and> map (JStr \<circ> fst) (artifacts sm') = map (JStr \<circ> fst) (artifacts sm) @ map art_id created"
  using assms
proof (induction reqs arbitrary: fs sm saved created fs' sm')
  case Nil
  then show ?case by simp
next
  case (Cons r reqs)
  show ?case
  proof (cases r)
    case (Create now ty fmt p q)
    obtain a sm1 where cr: "create_artifact now sm ty fmt p q = (a, sm1)"
      by (cases "create_artifact now sm ty fmt p q")
    obtain created1 fs1 sm2 where rest: "run_requests fs sm1 reqs = (created1, fs1, sm2)"
      by (cases "run_requests fs sm1 reqs")
    from Cons.prems(4) Create cr rest
    have eqs: "created = a # created1" "fs' = fs1" "sm' = sm2" by simp_all
    note c = create_artifact_inv [OF Cons.prems(1) cr]
    note ap = create_artifact_appends [OF Cons.prems(1) cr]
    have rt: "round_trips_from None reqs" using Cons.prems(3) Create by simp
    have ih: "map art_id created1 =
           map2 (\<lambda>ty n. JStr (ty @ ''_'' @ format_03d n)) (requested_types reqs)
             [artifact_counter sm1 + 1 .. artifact_counter sm1 + int (length (requested_types reqs))]
       \<and> artifact_counter sm2 = artifact_counter sm1 + int (length (requested_types reqs))
       \<and> map (JStr \<circ> fst) (artifacts sm2) = map (JStr \<circ> fst) (artifacts sm1) @ map art_id created1"
      using c(1) rt rest by (intro Cons.IH [where saved = None]) simp_all
    let ?f = "\<lambda>ty n. JStr (ty @ ''_'' @ format_03d n)"
    let ?tys = "requested_types reqs"
    let ?L1 = "[artifact_counter sm1 + 1 .. artifact_counter sm1 + int (length ?tys)]"
    have t: "requested_types (r # reqs) = ty # ?tys" by (simp add: Create)
    have u: "[artifact_counter sm + 1 .. artifact_counter sm + int (length (ty # ?tys))]
       = (artifact_counter sm + 1) # ?L1"
      by (subst upto_rec1) (simp_all add: c(3) algebra_simps)
    have "map art_id created = art_id a # map art_id created1" by (simp add: eqs)
    also have "\<dots> = ?f ty (artifact_counter sm + 1) # map2 ?f ?tys ?L1"
      using ih c(2) by simp
    also have "\<dots> = map2 ?f (ty # ?tys) ((artifact_counter sm + 1) # ?L1)" by simp
    finally have g1: "map art_id created = map2 ?f (requested_types (r # reqs))
         [artifact_counter sm + 1 .. artifact_counter sm + int (length (requested_types (r # reqs)))]"
      by (simp only: t u)
    have g2: "artifact_counter sm' = artifact_counter sm + int (length (requested_types (r # reqs)))"
      using ih c(3) by (simp add: t eqs)
    have "map (JStr \<circ> fst) (artifacts sm') =
            (map (JStr \<circ> fst) (artifacts sm) @ [art_id a]) @ map art_id created1"
      using ih ap by (simp only: eqs)
    then have g3: "map (JStr \<circ> fst) (artifacts sm') =
            map (JStr \<circ> fst) (artifacts sm) @ map art_id created"
      by (simp add: eqs)
    from g1 g2 g3 show ?thesis by blast
  next
    case (Save now filepath)
    have run: "run_requests (snd (save_session now fs sm filepath)) sm reqs = (created, fs', sm')"
      using Cons.prems(4) Save by simp
    have rt: "round_trips_from (Some filepath) reqs" using Cons.prems(3) Save by simp
    have "map art_id created =
           map2 (\<lambda>ty n. JStr (ty @ ''_'' @ format_03d n)) (requested_types reqs)
             [artifact_counter sm + 1 .. artifact_counter sm + int (length (requested_types reqs))]
       \<and> artifact_counter sm' = artifact_counter sm + int (length (requested_types reqs))
       \<and> map (JStr \<circ> fst) (artifacts sm') = map (JStr \<circ> fst) (artifacts sm) @ map art_id created"
      using Cons.prems(1) rt run synced_after_save [of now fs sm filepath]
      by (intro Cons.IH [where saved = "Some filepath"]) simp_all
    then show ?thesis by (simp only: Save requested_types.simps)
  next
    case (Load now filepath)
    from Cons.prems(3) Load have sv: "saved = Some filepath" and rt: "round_trips_from saved reqs"
      by auto
    from Cons.prems(2) sv have sy: "synced fs sm filepath" by simp
    have same: "snd (load_session now fs sm filepath) = sm"
      using Cons.prems(1) sy by (rule load_synced)
    have run: "run_requests fs sm reqs = (created, fs', sm')"
      using Cons.prems(4) Load same by simp
    have "map art_id created =
           map2 (\<lambda>ty n. JStr (ty @ ''_'' @ format_03d n)) (requested_types reqs)
             [artifact_counter sm + 1 .. artifact_counter sm + int (length (requested_types reqs))]
       \<and> artifact_counter sm' = artifact_counter sm + int (length (requested_types reqs))
       \<and> map (JStr \<circ> fst) (artifacts sm') = map (JStr \<circ> fst) (artifacts sm) @ map art_id created"
      using Cons.prems(1,2) rt run by (intro Cons.IH [where saved = saved]) simp_all
    then show ?thesis by (simp only: Load requested_types.simps)
  qed
qed

lemma numbered_suffixes:
  assumes "length tys = length ns"
    and "map art_id created = map2 (\<lambda>ty n. JStr (ty @ ''_'' @ format_03d n)) tys ns"
  shows "map id_suffix created = map Some ns"
proof -
  have "map id_suffix created
     = map (\<lambda>j. case j of JStr s \<Rightarrow> numeric_suffix s | _ \<Rightarrow> None) (map art_id created)"
    by (simp add: id_suffix_def comp_def)
  also have "\<dots> = map (\<lambda>(ty, n). Some n) (zip tys ns)"
    unfolding assms(2) by (simp add: split_def numeric_suffix_id [simplified])
  also have "\<dots> = map Some (map snd (zip tys ns))"
    unfolding map_map by (rule map_cong) auto
  also have "map snd (zip tys ns) = ns"
    using assms(1) by (rule map_snd_zip)
  finally show ?thesis .
qed

text \<open>
  Claim C10, as stated, fails: suffixes are not increasing across the whole registry
  when a create call stands between a save and the load of the saved file. A chart, a
  save, a second chart, the load and a table give \<open>chart_001\<close>, \<open>chart_002\<close> and
  \<open>table_002\<close>: the second chart and the table share the suffix 2.
\<close>

theorem stale_load_shares_suffix:
  "map art_id (fst (run_requests Map.empty init mixed_stale_run)) =
     [JStr ''chart_001'', JStr ''chart_002'', JStr ''table_002'']
   \<and> map id_suffix (fst (run_requests Map.empty init mixed_stale_run)) = [Some 1, Some 2, Some 2]"
  by code_simp

text \<open>
  Claim C10, amended. The identifier counter is one counter shared by all artifact
  types: from any registry with counter \<open>c\<close>, a run of \<open>n\<close> create calls with
  arbitrary types returns the identifiers \<open>type_k\<close> with \<open>k\<close> running through
  \<open>c + 1, ..., c + n\<close>, and the counter ends at \<open>c + n\<close>. In every run of create
  calls, saves and loads in which every load is a round trip, from a registry that
  such runs reach from a new one, the same holds of the create calls of the run: the
  suffixes read back from the returned identifiers are \<open>c + 1, ..., c + n\<close>,
  strictly increasing whatever the types, and the registry ends holding its former
  identifiers followed by the returned ones, so no two artifacts share a suffix. On
  a new registry a chart and then a table are \<open>chart_001\<close> and \<open>table_002\<close>.
\<close>

theorem shared_counter_across_types:
  "(map art_id (fst (run_requests fs sm (creates calls))) =
      map2 (\<lambda>c n. JStr (call_type c @ ''_'' @ format_03d n)) calls
        [artifact_counter sm + 1 .. artifact_counter sm + int (length calls)]
    \<and> map id_suffix (fst (run_requests fs sm (creates calls))) =
        map Some [artifact_counter sm + 1 .. artifact_counter sm + int (length calls)]
    \<and> artifact_counter (snd (snd (run_requests fs sm (creates calls)))) =
        artifact_counter sm + int (length calls))
   \<and> (registry_inv sm \<longrightarrow> round_trips reqs \<longrightarrow>
        map art_id (fst (run_requests fs sm reqs)) =
          map2 (\<lambda>ty n. JStr (ty @ ''_'' @ format_03d n)) (requested_types reqs)
            [artifact_counter sm + 1 .. artifact_counter sm + int (length (requested_types reqs))]
      \<and> map id_suffix (fst (run_requests fs sm reqs)) =
          map Some [artifact_counter sm + 1 ..
                    artifact_counter sm + int (length (requested_types reqs))]
      \<and> sorted_wrt (\<lambda>a b. \<exists>m n. id_suffix a = Some m \<and> id_suffix b = Some n \<and> m < n)
          (fst (run_requests fs sm reqs))
      \<and> artifact_counter (snd (snd (run_requests fs sm reqs))) =
          artifact_counter sm + int (length (requested_types reqs))
      \<and> map (JStr \<circ> fst) (artifacts (snd (snd (run_requests fs sm reqs)))) =
          map (JStr \<circ> fst) (artifacts sm) @ map art_id (fst (run_requests fs sm reqs)))"
proof (intro conjI impI)
  show "map art_id (fst (run_requests fs sm (creates calls))) =
      map2 (\<lambda>c n. JStr (call_type c @ ''_'' @ format_03d n)) calls
        [artifact_counter sm + 1 .. artifact_counter sm + int (length calls)]"
    by (rule run_creates_ids)
  show "map id_suffix (fst (run_requests fs sm (creates calls))) =
        map Some [artifact_counter sm + 1 .. artifact_counter sm + int (length calls)]"
    by (rule run_creates_suffixes)
  show "artifact_counter (snd (snd (run_requests fs sm (creates calls)))) =
        artifact_counter sm + int (length calls)"
    by (rule run_creates_counter)
next
  assume inv: "registry_inv sm" and rt: "round_trips reqs"
  obtain created fs' sm' where r: "run_requests fs sm reqs = (created, fs', sm')"
    by (cases "run_requests fs sm reqs")
  let ?ns = "[artifact_counter sm + 1 .. artifact_counter sm + int (length (requested_types reqs))]"
  have n: "map art_id created =
           map2 (\<lambda>ty n. JStr (ty @ ''_'' @ format_03d n)) (requested_types reqs) ?ns
       \<and> artifact_counter sm' = artifact_counter sm + int (length (requested_types reqs))
       \<and> map (JStr \<circ> fst) (artifacts sm') = map (JStr \<circ> fst) (artifacts sm) @ map art_id created"
    using inv rt r
    by (intro run_requests_numbering [where saved = None]) (simp_all add: round_trips_def)
  have len: "length (requested_types reqs) = length ?ns" by simp
  have sfx: "map id_suffix created = map Some ?ns"
    using len n by (intro numbered_suffixes) blast+
  show "map art_id (fst (run_requests fs sm reqs)) =
          map2 (\<lambda>ty n. JStr (ty @ ''_'' @ format_03d n)) (requested_types reqs) ?ns"
    using n by (simp add: r)
  show "map id_suffix (fst (run_requests fs sm reqs)) = map Some ?ns"
    using sfx by (simp add: r)
  show "sorted_wrt (\<lambda>a b. \<exists>m n. id_suffix a = Some m \<and> id_suffix b = Some n \<and> m < n)
          (fst (run_requests fs sm reqs))"
    using increasing_suffixes [OF sfx sorted_wrt_upto] by (simp add: r)
  show "artifact_counter (snd (snd (run_requests fs sm reqs))) =
          artifact_counter sm + int (length (requested_types reqs))"
    using n by (simp add: r)
  show "map (JStr \<circ> fst) (artifacts (snd (snd (run_requests fs sm reqs)))) =
          map (JStr \<circ> fst) (artifacts sm) @ map art_id (fst (run_requests fs sm reqs))"
    using n by (simp add: r)
qed

theorem shared_counter_across_types_witness:
  "registry_inv init \<and> round_trips mixed_round_trip_run
   \<and> map art_id (fst (run_requests Map.empty init mixed_round_trip_run)) =
       [JStr ''chart_001'', JStr ''table_002'']
   \<and> map id_suffix (fst (run_requests Map.empty init mixed_round_trip_run)) = [Some 1, Some 2]
   \<and> map (JStr \<circ> fst) (artifacts (snd (snd (run_requests Map.empty init mixed_round_trip_run)))) =
       [JStr ''chart_001'', JStr ''table_002'']
   \<and> artifact_counter (snd (snd (run_requests Map.empty init mixed_round_trip_run))) = 2"
proof -
  have rt: "round_trips mixed_round_trip_run" by code_simp
  have ty: "requested_types mixed_round_trip_run = [''chart'', ''table'']" by code_simp
  have c0: "artifact_counter init = 0" "artifacts init = []" by (simp_all add: init_def)
  have up: "[1 .. 2 :: int] = [1, 2]"
    by code_simp
  note t = shared_counter_across_types [where sm = init and reqs = mixed_round_trip_run
      and fs = Map.empty, THEN conjunct2, rule_format, OF registry_inv_init rt]
  from t have ids: "map art_id (fst (run_requests Map.empty init mixed_round_trip_run)) =
       [JStr ''chart_001'', JStr ''table_002'']"
    by (simp add: ty c0 up format_examples)
  from t have sf: "map id_suffix (fst (run_requests Map.empty init mixed_round_trip_run)) =
       [Some 1, Some 2]"
    by (simp add: ty c0 up)
  from t have ct: "artifact_counter (snd (snd (run_requests Map.empty init mixed_round_trip_run))) = 2"
    by (simp add: ty c0)
  from t ids have ks: "map (JStr \<circ> fst)
       (artifacts (snd (snd (run_requests Map.empty init mixed_round_trip_run)))) =
       [JStr ''chart_001'', JStr ''table_002'']"
    by (simp add: c0)
  from registry_inv_init rt ids sf ks ct show ?thesis by simp
qed

section \<open>Rewriting placeholder paths\<close>

lemma str_replace_Nil: "old \<noteq> [] \<Longrightarrow> str_replace old new [] = []"
  by (subst str_replace.simps) simp

lemma str_replace_match:
  "old \<noteq> [] \<Longrightarrow> str_replace old new (old @ s) = new @ str_replace old new s"
  by (subst str_replace.simps) simp

lemma str_replace_copy:
  "old \<noteq> [] \<Longrightarrow> \<not> prefix old (c # s) \<Longrightarrow> str_replace old new (c # s) = c # str_replace old new s"
  by (subst str_replace.simps) simp

lemma str_replace_skip:
  assumes "old \<noteq> []" "hd old \<notin> set u"
  shows "str_replace old new (u @ s) = u @ str_replace old new s"
  using assms(2)
proof (induction u)
  case Nil
  then show ?case by simp
next
  case (Cons c u)
  have "\<not> prefix old (c # u @ s)"
    using assms(1) Cons.prems by (cases old) auto
  with Cons assms(1) show ?case by (simp add: str_replace_copy)
qed

lemma rewrite_pass_Nil: "rewrite_pass rules [] = []"
  by (subst rewrite_pass.simps) simp

lemma rewrite_pass_match:
  assumes "s \<noteq> []" "find (\<lambda>(old, new). old \<noteq> [] \<and> prefix old s) rules = Some (old, new)"
  shows "rewrite_pass rules s = new @ rewrite_pass rules (drop (length old) s)"
  using assms by (subst rewrite_pass.simps) simp

lemma rewrite_pass_copy:
  assumes "s \<noteq> []" "find (\<lambda>(old, new). old \<noteq> [] \<and> prefix old s) rules = None"
  shows "rewrite_pass rules s = hd s # rewrite_pass rules (tl s)"
  using assms by (subst rewrite_pass.simps) simp

lemma rewrite_pass_skip:
  assumes "\<forall>(old, new) \<in> set rules. old \<noteq> [] \<longrightarrow> hd old \<notin> set u"
  shows "rewrite_pass rules (u @ s) = u @ rewrite_pass rules s"
  using assms
proof (induction u)
  case Nil
  then show ?case by simp
next
  case (Cons c u)
  have "find (\<lambda>(old, new). old \<noteq> [] \<and> prefix old (c # u @ s)) rules = None"
  proof -
    have "\<not> (old \<noteq> [] \<and> prefix old (c # u @ s))" if "(old, new) \<in> set rules" for old new
      using that Cons.prems by (cases old) auto
    then show ?thesis by (auto simp: find_None_iff)
  qed
  then have "rewrite_pass rules (c # u @ s) = c # rewrite_pass rules (u @ s)"
    using rewrite_pass_copy [of "c # u @ s" rules] by simp
  moreover have "\<forall>(old, new) \<in> set rules. old \<noteq> [] \<longrightarrow> hd old \<notin> set u"
    using Cons.prems by auto
  ultimately show ?case using Cons.IH by simp
qed

lemma prefix_rewrite_pass:
  assumes "\<forall>(old, new) \<in> set rules. new \<noteq> [] \<and> hd new \<notin> set u"
    and "prefix u (rewrite_pass rules s)"
  shows "prefix u s"
  using assms
proof (induction s arbitrary: u rule: length_induct)
  case (1 s)
  show ?case
  proof (cases "u = [] \<or> s = []")
    case True
    with 1 show ?thesis by (auto simp: rewrite_pass_Nil)
  next
    case False
    then obtain c u' where u: "u = c # u'" and s: "s \<noteq> []" by (cases u) auto
    show ?thesis
    proof (cases "find (\<lambda>(old, new). old \<noteq> [] \<and> prefix old s) rules")
      case None
      then have r: "rewrite_pass rules s = hd s # rewrite_pass rules (tl s)"
        using s by (rule rewrite_pass_copy [rotated])
      with "1.prems"(2) u have c: "c = hd s" and p: "prefix u' (rewrite_pass rules (tl s))" by auto
      have "\<forall>(old, new) \<in> set rules. new \<noteq> [] \<and> hd new \<notin> set u'"
        using "1.prems"(1) u by auto
      moreover have "length (tl s) < length s" using s by simp
      ultimately have "prefix u' (tl s)" using "1.IH" p by blast
      with c s u show ?thesis by (cases s) auto
    next
      case (Some rule)
      obtain old new where rule: "rule = (old, new)" by (cases rule)
      have r: "rewrite_pass rules s = new @ rewrite_pass rules (drop (length old) s)"
        using s Some rule by (intro rewrite_pass_match) simp_all
      have mem: "(old, new) \<in> set rules" using Some rule by (auto simp: find_Some_iff in_set_conv_nth)
      with "1.prems"(1) have n: "new \<noteq> []" "hd new \<notin> set u" by auto
      from "1.prems"(2) r u n have False by (cases new) auto
      then show ?thesis ..
    qed
  qed
qed

lemma find_snoc:
  "find P (xs @ [x]) = (case find P xs of Some y \<Rightarrow> Some y | None \<Rightarrow> if P x then Some x else None)"
  by (induction xs) auto

lemma str_replace_after_pass:
  assumes old: "old \<noteq> []"
    and over: "\<forall>(pat, rep) \<in> set rules. \<forall>X. str_replace old new (rep @ X) = rep @ str_replace old new X"
    and fresh: "\<forall>(pat, rep) \<in> set rules. rep \<noteq> [] \<and> hd rep \<notin> set (tl old)"
    and heads: "\<forall>(pat, rep) \<in> set rules. pat \<noteq> [] \<longrightarrow> hd pat \<notin> set (tl old)"
  shows "str_replace old new (rewrite_pass rules s) = rewrite_pass (rules @ [(old, new)]) s"
proof (induction s rule: length_induct)
  case (1 s)
  let ?P = "\<lambda>s (pat, rep). pat \<noteq> [] \<and> prefix pat s"
  show ?case
  proof (cases "s = []")
    case True
    with old show ?thesis by (simp add: rewrite_pass_Nil str_replace_Nil)
  next
    case ne: False
    show ?thesis
    proof (cases "find (?P s) rules")
      case (Some rule)
      obtain pat rep where rule: "rule = (pat, rep)" by (cases rule)
      have mem: "(pat, rep) \<in> set rules" and pat: "pat \<noteq> []"
        using Some rule by (auto simp: find_Some_iff in_set_conv_nth)
      have l: "rewrite_pass rules s = rep @ rewrite_pass rules (drop (length pat) s)"
        using ne Some rule by (intro rewrite_pass_match) simp_all
      have "find (?P s) (rules @ [(old, new)]) = Some (pat, rep)"
        using Some rule by (simp add: find_snoc)
      then have r: "rewrite_pass (rules @ [(old, new)]) s =
                 rep @ rewrite_pass (rules @ [(old, new)]) (drop (length pat) s)"
        using ne by (intro rewrite_pass_match) simp_all
      have "length (drop (length pat) s) < length s" using ne pat by simp
      then have ih: "str_replace old new (rewrite_pass rules (drop (length pat) s)) =
                 rewrite_pass (rules @ [(old, new)]) (drop (length pat) s)"
        using "1.IH" by blast
      have "str_replace old new (rep @ rewrite_pass rules (drop (length pat) s)) =
            rep @ str_replace old new (rewrite_pass rules (drop (length pat) s))"
        using over mem by blast
      with l r ih show ?thesis by simp
    next
      case None
      have l: "rewrite_pass rules s = hd s # rewrite_pass rules (tl s)"
        using ne None by (rule rewrite_pass_copy)
      have iht: "str_replace old new (rewrite_pass rules (tl s)) =
                 rewrite_pass (rules @ [(old, new)]) (tl s)"
        using "1.IH" ne by simp
      show ?thesis
      proof (cases "prefix old s")
        case True
        then obtain t where s: "s = old @ t" by (auto simp: prefix_def)
        obtain q body where q: "old = q # body" using old by (cases old) auto
        have "find (?P s) (rules @ [(old, new)]) = Some (old, new)"
          using None True old by (simp add: find_snoc)
        then have r: "rewrite_pass (rules @ [(old, new)]) s =
                 new @ rewrite_pass (rules @ [(old, new)]) t"
          using ne rewrite_pass_match [of s "rules @ [(old, new)]" old new] by (simp add: s)
        have "\<forall>(pat, rep) \<in> set rules. pat \<noteq> [] \<longrightarrow> hd pat \<notin> set body"
          using heads q by auto
        then have "rewrite_pass rules (body @ t) = body @ rewrite_pass rules t"
          by (rule rewrite_pass_skip)
        with l have l': "rewrite_pass rules s = old @ rewrite_pass rules t"
          by (simp add: s q)
        have "length t < length s" using old by (simp add: s)
        then have ih: "str_replace old new (rewrite_pass rules t) = rewrite_pass (rules @ [(old, new)]) t"
          using "1.IH" by blast
        show ?thesis
          unfolding l' r using ih old by (simp add: str_replace_match)
      next
        case False
        have "find (?P s) (rules @ [(old, new)]) = None"
          using None False by (simp add: find_snoc)
        then have r: "rewrite_pass (rules @ [(old, new)]) s =
                 hd s # rewrite_pass (rules @ [(old, new)]) (tl s)"
          using ne by (intro rewrite_pass_copy) simp_all
        have np: "\<not> prefix old (hd s # rewrite_pass rules (tl s))"
        proof
          assume p: "prefix old (hd s # rewrite_pass rules (tl s))"
          obtain q body where q: "old = q # body" using old by (cases old) auto
          from p q have h: "q = hd s" and b: "prefix body (rewrite_pass rules (tl s))" by auto
          have "\<forall>(pat, rep) \<in> set rules. rep \<noteq> [] \<and> hd rep \<notin> set body"
            using fresh q by auto
          from prefix_rewrite_pass [OF this b] have "prefix body (tl s)" .
          with h q ne have "prefix old s" by (cases s) auto
          with False show False ..
        qed
        show ?thesis
          unfolding l r using iht old np by (simp add: str_replace_copy)
      qed
    qed
  qed
qed

lemma rewrite_pass_no_rules: "rewrite_pass [] s = s"
proof (induction s)
  case Nil
  show ?case by (rule rewrite_pass_Nil)
next
  case (Cons c s)
  have "rewrite_pass [] (c # s) = hd (c # s) # rewrite_pass [] (tl (c # s))"
    by (rule rewrite_pass_copy) simp_all
  with Cons show ?case by simp
qed

lemma str_replace_one_pass:
  assumes "old \<noteq> []"
  shows "str_replace old new s = rewrite_pass [(old, new)] s"
  using str_replace_after_pass [where rules = "[]" and old = old and new = new and s = s] assms
  by (simp add: rewrite_pass_no_rules)

lemma quotes_not_letters:
  "squote \<noteq> CHR ''r''" "dquote \<noteq> CHR ''r''" "squote \<noteq> CHR ''/''" "dquote \<noteq> CHR ''/''"
  "squote \<noteq> dquote" "dquote \<noteq> squote"
  "squote \<notin> set ''/data/''" "dquote \<notin> set ''/data/''"
  "squote \<notin> set ''/output/''" "dquote \<notin> set ''/output/''"
  by (simp_all add: squote_def dquote_def)

lemma str_replace_over_other_quote:
  assumes "q \<noteq> CHR ''r''" "q \<noteq> CHR ''/''" "q \<noteq> q'" "q \<notin> set dir"
  shows "str_replace (q # body) new ((''r'' @ [q'] @ dir @ ''/'') @ X) =
         (''r'' @ [q'] @ dir @ ''/'') @ str_replace (q # body) new X"
  using assms by (intro str_replace_skip) auto

lemma str_replace_over_same_quote:
  assumes "q \<noteq> CHR ''r''" "q \<noteq> CHR ''/''" "q \<notin> set dir"
    and "\<not> prefix body (dir @ ''/'' @ X)"
  shows "str_replace (q # body) new ((''r'' @ [q] @ dir @ ''/'') @ X) =
         (''r'' @ [q] @ dir @ ''/'') @ str_replace (q # body) new X"
proof -
  have 1: "str_replace (q # body) new (CHR ''r'' # q # dir @ ''/'' @ X) =
           CHR ''r'' # str_replace (q # body) new (q # dir @ ''/'' @ X)"
    using assms(1) by (intro str_replace_copy) auto
  have 2: "str_replace (q # body) new (q # dir @ ''/'' @ X) =
           q # str_replace (q # body) new (dir @ ''/'' @ X)"
    using assms(4) by (intro str_replace_copy) auto
  have 3: "str_replace (q # body) new ((dir @ ''/'') @ X) =
           (dir @ ''/'') @ str_replace (q # body) new X"
    using assms(2,3) by (intro str_replace_skip) auto
  from 1 2 3 show ?thesis by simp
qed

lemma prepare_code_is_one_pass:
  assumes sD: "squote \<notin> set data_dir" and dD: "dquote \<notin> set data_dir"
    and dO: "dquote \<notin> set output_dir"
    and nd: "\<And>X. \<not> prefix ''/output/'' (data_dir @ ''/'' @ X)"
  shows "prepare_code_for_local_execution code data_dir output_dir =
         rewrite_pass (placeholder_rules data_dir output_dir) code"
proof -
  let ?p1 = "squote # ''/data/''" and ?n1 = "''r'' @ [squote] @ data_dir @ ''/''"
  let ?p2 = "dquote # ''/data/''" and ?n2 = "''r'' @ [dquote] @ data_dir @ ''/''"
  let ?p3 = "squote # ''/output/''" and ?n3 = "''r'' @ [squote] @ output_dir @ ''/''"
  let ?p4 = "dquote # ''/output/''" and ?n4 = "''r'' @ [dquote] @ output_dir @ ''/''"
  note q = quotes_not_letters
  have o21: "str_replace ?p2 ?n2 (?n1 @ X) = ?n1 @ str_replace ?p2 ?n2 X" for X
    using q dD by (intro str_replace_over_other_quote) auto
  have o31: "str_replace ?p3 ?n3 (?n1 @ X) = ?n1 @ str_replace ?p3 ?n3 X" for X
    using q sD nd [of X] by (intro str_replace_over_same_quote) auto
  have o32: "str_replace ?p3 ?n3 (?n2 @ X) = ?n2 @ str_replace ?p3 ?n3 X" for X
    using q sD by (intro str_replace_over_other_quote) auto
  have o41: "str_replace ?p4 ?n4 (?n1 @ X) = ?n1 @ str_replace ?p4 ?n4 X" for X
    using q dD by (intro str_replace_over_other_quote) auto
  have o42: "str_replace ?p4 ?n4 (?n2 @ X) = ?n2 @ str_replace ?p4 ?n4 X" for X
    using q dD nd [of X] by (intro str_replace_over_same_quote) auto
  have o43: "str_replace ?p4 ?n4 (?n3 @ X) = ?n3 @ str_replace ?p4 ?n4 X" for X
    using q dO by (intro str_replace_over_other_quote) auto
  have s1: "str_replace ?p1 ?n1 code = rewrite_pass [(?p1, ?n1)] code"
    by (rule str_replace_one_pass) simp
  have s2: "str_replace ?p2 ?n2 (rewrite_pass [(?p1, ?n1)] code) =
            rewrite_pass ([(?p1, ?n1)] @ [(?p2, ?n2)]) code"
    using o21 q by (intro str_replace_after_pass) auto
  have s3: "str_replace ?p3 ?n3 (rewrite_pass [(?p1, ?n1), (?p2, ?n2)] code) =
            rewrite_pass ([(?p1, ?n1), (?p2, ?n2)] @ [(?p3, ?n3)]) code"
    using o31 o32 q by (intro str_replace_after_pass) auto
  have s4: "str_replace ?p4 ?n4 (rewrite_pass [(?p1, ?n1), (?p2, ?n2), (?p3, ?n3)] code) =
            rewrite_pass ([(?p1, ?n1), (?p2, ?n2), (?p3, ?n3)] @ [(?p4, ?n4)]) code"
    using o41 o42 o43 q by (intro str_replace_after_pass) auto
  show ?thesis
    unfolding prepare_code_for_local_execution_def Let_def placeholder_rules_def
    using s1 s2 s3 s4 by simp
qed

lemma no_output_prefix:
  assumes "\<not> prefix ''/output/'' (t @ ''/data/'')"
  shows "\<not> prefix ''/output/'' ((t @ ''/data'') @ ''/'' @ X)"
proof
  assume "prefix ''/output/'' ((t @ ''/data'') @ ''/'' @ X)"
  then have "prefix ''/output/'' ((t @ ''/data/'') @ X)" by simp
  then have "prefix ''/output/'' (t @ ''/data/'')
           \<or> (\<exists>us. ''/output/'' = (t @ ''/data/'') @ us \<and> prefix us X)"
    by (simp only: prefix_append)
  with assms obtain us where "''/output/'' = (t @ ''/data/'') @ us" by blast
  then have "set (t @ ''/data/'') \<subseteq> set ''/output/''"
    by (metis set_append sup_ge1)
  then show False by auto
qed

text \<open>
  Claim C9, as stated, fails: a script that names the data root inside a shell command,
  \<open>os.system("cat /data/sales.csv")\<close>, holds the text \<open>/data/\<close> literally, and the
  local-process backend writes it to \<open>execute.py\<close> unchanged, because the placeholder
  does not directly follow a quote character.
\<close>

theorem shell_command_reference_not_rewritten:
  "sublist ''/data/'' shell_script
   \<and> subprocess_script (slow_host 1) shell_script = shell_script"
  by code_simp

text \<open>
  Claim C9, amended. On a machine whose temporary directory has no quote character in
  its path and does not lie under \<open>/output/\<close>, the text the local-process backend
  writes is the script rewritten in one pass from left to right: where a single or
  double quote is directly followed by \<open>/data/\<close> or \<open>/output/\<close>, the letter \<open>r\<close>,
  the same quote, the sandbox's real input or output directory and a slash are
  written in their place; every other character is copied, so a script without
  quote characters is written unchanged. The container backend writes the script
  text unmodified and mounts the sandbox root at \<open>/workspace\<close>, its working directory.
\<close>

theorem local_rewriting_of_quoted_placeholders:
  assumes "squote \<notin> set (temp_dir h)" and "dquote \<notin> set (temp_dir h)"
    and "\<not> prefix ''/output/'' (temp_dir h @ ''/data/'')"
  shows "subprocess_script h code =
           rewrite_pass (placeholder_rules (temp_dir h @ ''/data'') (temp_dir h @ ''/output'')) code
       \<and> (squote \<notin> set code \<and> dquote \<notin> set code \<longrightarrow> subprocess_script h code = code)
       \<and> docker_script h code = code
       \<and> take 4 (drop 9 (docker_cmd h docker_image)) =
           [''-v'', temp_dir h @ '':/workspace'', ''-w'', ''/workspace'']"
proof -
  let ?rules = "placeholder_rules (temp_dir h @ ''/data'') (temp_dir h @ ''/output'')"
  have q: "squote \<notin> set ''/data''" "dquote \<notin> set ''/data''" "dquote \<notin> set ''/output''"
    by (simp_all add: squote_def dquote_def)
  have one: "subprocess_script h code = rewrite_pass ?rules code"
    unfolding subprocess_script_def
    using assms(1,2) q no_output_prefix [OF assms(3)]
    by (intro prepare_code_is_one_pass) auto
  have same: "rewrite_pass ?rules code = code" if "squote \<notin> set code" "dquote \<notin> set code"
  proof -
    have "\<forall>(old, new) \<in> set ?rules. old \<noteq> [] \<longrightarrow> hd old \<notin> set code"
      using that by (simp add: placeholder_rules_def)
    from rewrite_pass_skip [OF this, of "[]"] show ?thesis by (simp add: rewrite_pass_Nil)
  qed
  have cmd: "take 4 (drop 9 (docker_cmd h docker_image)) =
           [''-v'', temp_dir h @ '':/workspace'', ''-w'', ''/workspace'']"
    by (simp add: docker_cmd_def)
  from one same cmd show ?thesis by (simp add: docker_script_def)
qed

theorem local_rewriting_of_quoted_placeholders_witness:
  "squote \<notin> set (temp_dir (slow_host 1)) \<and> dquote \<notin> set (temp_dir (slow_host 1))
   \<and> subprocess_script (slow_host 1) read_script =
       rewrite_pass (placeholder_rules ''/tmp/tmpab12/data'' ''/tmp/tmpab12/output'') read_script
   \<and> subprocess_script (slow_host 1) read_script =
       ''pd.read_csv(r'' @ [squote] @ ''/tmp/tmpab12/data/sales.csv'' @ [squote] @ '')''
   \<and> subprocess_script (slow_host 1) ''print(1)'' = ''print(1)''
   \<and> docker_script (slow_host 1) read_script = read_script"
proof -
  have a: "squote \<notin> set (temp_dir (slow_host 1))" "dquote \<notin> set (temp_dir (slow_host 1))"
    "\<not> prefix ''/output/'' (temp_dir (slow_host 1) @ ''/data/'')"
    by (simp_all add: slow_host_def squote_def dquote_def)
  have t: "temp_dir (slow_host 1) = ''/tmp/tmpab12''" by (simp add: slow_host_def)
  have v: "rewrite_pass (placeholder_rules ''/tmp/tmpab12/data'' ''/tmp/tmpab12/output'') read_script =
       ''pd.read_csv(r'' @ [squote] @ ''/tmp/tmpab12/data/sales.csv'' @ [squote] @ '')''"
    by code_simp
  have nq: "squote \<notin> set ''print(1)'' \<and> dquote \<notin> set ''print(1)''"
    by (simp add: squote_def dquote_def)
  have r: "subprocess_script (slow_host 1) read_script =
       rewrite_pass (placeholder_rules ''/tmp/tmpab12/data'' ''/tmp/tmpab12/output'') read_script"
    and d: "docker_script (slow_host 1) read_script = read_script"
    using local_rewriting_of_quoted_placeholders [OF a, of read_script] by (simp_all add: t)
  have p: "subprocess_script (slow_host 1) ''print(1)'' = ''print(1)''"
    using local_rewriting_of_quoted_placeholders [OF a, of "''print(1)''"] nq by blast
  from a(1,2) r v d p show ?thesis by (simp only: simp_thms)
qed

end
